theory Spec2Isabelle
  imports Complex_Main
begin

section \<open>Strings\<close>

text \<open>
  Python strings are modelled as \<^typ>\<open>string\<close>: a list of characters with code points
  \<open>0..255\<close>. On that range \<open>str.lower\<close> maps \<open>A..Z\<close> and the Latin-1 capitals
  \<open>0xC0..0xDE\<close> (without the multiplication sign \<open>0xD7\<close>) to the character 32 places
  later, and \<open>str.isspace\<close> holds for \<open>0x09..0x0D\<close>, \<open>0x1C..0x20\<close>, \<open>0x85\<close> and
  \<open>0xA0\<close>. Code points above 255 are outside the model.
\<close>

definition isspace :: "char \<Rightarrow> bool" where
  "isspace c =
     (let n = (of_char c :: nat)
      in (9 \<le> n \<and> n \<le> 13) \<or> (28 \<le> n \<and> n \<le> 32) \<or> n = 133 \<or> n = 160)"

definition lower_char :: "char \<Rightarrow> char" where
  "lower_char c =
     (let n = (of_char c :: nat)
      in if (65 \<le> n \<and> n \<le> 90) \<or> (192 \<le> n \<and> n \<le> 222 \<and> n \<noteq> 215)
         then char_of (n + 32) else c)"

definition lower :: "string \<Rightarrow> string" where
  "lower s = map lower_char s"

text \<open>
  \<open>s.split()\<close> with no separator: skip whitespace, take the characters up to the next
  whitespace as one word, repeat. It never yields an empty word.
\<close>

function split_ws :: "string \<Rightarrow> string list" where
  "split_ws s =
     (let r = dropWhile isspace s
      in if r = [] then []
         else takeWhile (\<lambda>c. \<not> isspace c) r # split_ws (dropWhile (\<lambda>c. \<not> isspace c) r))"
  by pat_completeness auto
termination
proof (relation "measure length")
  show "wf (measure length)" by simp
next
  fix s r :: string
  assume r: "r = dropWhile isspace s" and ne: "r \<noteq> []"
  from ne obtain x xs where rx: "r = x # xs" by (cases r) auto
  have "dropWhile isspace s = x # xs"
    using r rx by simp
  then have "\<not> isspace x"
    by (simp add: dropWhile_eq_Cons_conv)
  then have "length (dropWhile (\<lambda>c. \<not> isspace c) r) \<le> length xs"
    using rx by (simp add: length_dropWhile_le)
  moreover have "length r \<le> length s"
    using r by (simp add: length_dropWhile_le)
  ultimately show "(dropWhile (\<lambda>c. \<not> isspace c) r, s) \<in> measure length"
    using rx by simp
qed

declare split_ws.simps [simp del]

text \<open>\<open>" ".join(ws)\<close>: the words separated by one ASCII space.\<close>

fun join_sp :: "string list \<Rightarrow> string" where
  "join_sp [] = []"
| "join_sp [w] = w"
| "join_sp (w # v # ws) = w @ CHR '' '' # join_sp (v # ws)"

text \<open>\<open>s.strip()\<close> removes the whitespace at both ends.\<close>

definition lstrip :: "string \<Rightarrow> string" where
  "lstrip s = dropWhile isspace s"

definition rstrip :: "string \<Rightarrow> string" where
  "rstrip s = rev (dropWhile isspace (rev s))"

definition strip :: "string \<Rightarrow> string" where
  "strip s = rstrip (lstrip s)"

section \<open>The address normalizer\<close>

text \<open>
  \<^verbatim>\<open>
  def normalize_addr(addr: Optional[str]) -> str:
      if not addr:
          return ""
      return " ".join(addr.lower().split())
  \<close>
  \<open>not addr\<close> holds for \<open>None\<close> and for the empty string.
\<close>

fun normalize_addr :: "string option \<Rightarrow> string" where
  "normalize_addr None = []"
| "normalize_addr (Some addr) = (if addr = [] then [] else join_sp (split_ws (lower addr)))"


text \<open>
  The reading of the specification "every run of whitespace (including leading and
  trailing) collapsed to single ASCII spaces", taken by its words: each maximal run of
  whitespace characters, wherever it stands, becomes one space.
\<close>

fun collapse_ws :: "string \<Rightarrow> string" where
  "collapse_ws [] = []"
| "collapse_ws [c] = [if isspace c then CHR '' '' else c]"
| "collapse_ws (c # d # s) =
     (if isspace c
      then (if isspace d then collapse_ws (d # s) else CHR '' '' # collapse_ws (d # s))
      else c # collapse_ws (d # s))"

section \<open>The data store\<close>

text \<open>
  The two tables, with the columns the matcher reads. \<open>Listing.property_id\<close> is
  nullable, and its \<open>NULL\<close> is what stage 0 tests; the text columns of a property that
  the matcher reads are taken to hold a value. A session is the content of both tables,
  in the order in which the data store returns rows.
\<close>

record property =
  p_property_id :: string
  p_team_id :: string
  p_street_part :: string
  p_full_address :: string

record listing =
  l_listing_id :: string
  l_property_id :: "string option"

record session =
  properties :: "property list"
  listings :: "listing list"

datatype error =
    ValueError string
  | MultipleResultsFound
  | KeyError string
  | IndexError

text \<open>
  SQL \<open>ILIKE\<close>: the second operand is a pattern, in which \<open>%\<close> stands for any
  sequence of characters, \<open>_\<close> for any one character and a backslash takes the next
  character as it is; letters compare without case. The data store fails on a pattern
  that ends in a lone backslash once matching reaches that backslash; that failure is not
  modelled, and here such a pattern matches nothing.
\<close>

fun like_match :: "string \<Rightarrow> string \<Rightarrow> bool" where
  "like_match [] [] = True"
| "like_match [] (c # t) = False"
| "like_match (p # ps) [] = (p = CHR ''%'' \<and> like_match ps [])"
| "like_match (p # ps) (c # t) =
     (if p = CHR ''%'' then like_match ps (c # t) \<or> like_match (p # ps) t
      else if p = CHR ''_'' then like_match ps t
      else if p = CHR 0x5C then (case ps of [] \<Rightarrow> False | q # qs \<Rightarrow> q = c \<and> like_match qs t)
      else p = c \<and> like_match ps t)"

definition ilike :: "string \<Rightarrow> string \<Rightarrow> bool" where
  "ilike column pattern = like_match (lower pattern) (lower column)"

text \<open>
  \<open>Result.scalar_one_or_none()\<close>: no row gives \<open>None\<close>, one row gives its first
  column, more than one row raises \<open>MultipleResultsFound\<close>.
\<close>

fun scalar_one_or_none :: "'a option list \<Rightarrow> error + 'a option" where
  "scalar_one_or_none [] = Inr None"
| "scalar_one_or_none [x] = Inr x"
| "scalar_one_or_none (x # y # zs) = Inl MultipleResultsFound"

text \<open>
  \<open>db.execute\<close> sends the strings of a query as bound parameters. The driver refuses a
  string that contains the NUL character with a \<open>ValueError\<close>, before the query runs.
  \<open>execute_scalar_one_or_none\<close> is \<open>db.execute(...).scalar_one_or_none()\<close>.
\<close>

definition NUL_MESSAGE :: string where
  "NUL_MESSAGE = ''A string literal cannot contain NUL (0x00) characters.''"

definition has_nul :: "string \<Rightarrow> bool" where
  "has_nul s = (CHR 0x00 \<in> set s)"

definition execute :: "string list \<Rightarrow> 'a \<Rightarrow> error + 'a" where
  "execute params rows =
     (if list_ex has_nul params then Inl (ValueError NUL_MESSAGE) else Inr rows)"

definition execute_scalar_one_or_none :: "string list \<Rightarrow> 'a option list \<Rightarrow> error + 'a option" where
  "execute_scalar_one_or_none params rows =
     (case execute params rows of Inl e \<Rightarrow> Inl e | Inr r \<Rightarrow> scalar_one_or_none r)"

text \<open>Python's truth test of an optional string: \<open>None\<close> and \<open>""\<close> are false.\<close>

fun truthy :: "string option \<Rightarrow> bool" where
  "truthy None = False"
| "truthy (Some s) = (s \<noteq> [])"

text \<open>
  The four queries of the source, as the rows they select.
  \<^verbatim>\<open>
  select(Listing.property_id).where(Listing.listing_id == listing_id)
                             .where(Listing.property_id.isnot(None))
  select(Property.property_id).where(Property.team_id == team_id)
                              .where(Property.full_address.ilike(norm_addr))
  select(Property.property_id).where(Property.team_id == team_id)
                              .where(Property.street_part.ilike(base)).limit(1)
  select(Property.property_id, Property.full_address).where(Property.team_id == team_id)
  \<close>
\<close>

definition prematch_rows :: "session \<Rightarrow> string \<Rightarrow> string option list" where
  "prematch_rows db listing_id =
     map l_property_id
       (filter (\<lambda>l. l_listing_id l = listing_id \<and> l_property_id l \<noteq> None) (listings db))"

definition exact_rows :: "session \<Rightarrow> string \<Rightarrow> string \<Rightarrow> string option list" where
  "exact_rows db team_id norm_addr =
     map (\<lambda>p. Some (p_property_id p))
       (filter (\<lambda>p. p_team_id p = team_id \<and> ilike (p_full_address p) norm_addr) (properties db))"

definition bldg_rows :: "session \<Rightarrow> string \<Rightarrow> string \<Rightarrow> string option list" where
  "bldg_rows db team_id base =
     take 1 (map (\<lambda>p. Some (p_property_id p))
       (filter (\<lambda>p. p_team_id p = team_id \<and> ilike (p_street_part p) base) (properties db)))"

definition team_rows :: "session \<Rightarrow> string \<Rightarrow> (string \<times> string) list" where
  "team_rows db team_id =
     map (\<lambda>p. (p_property_id p, p_full_address p))
       (filter (\<lambda>p. p_team_id p = team_id) (properties db))"

section \<open>Embeddings and the per-team index\<close>

text \<open>
  The embedding model is a parameter \<open>encode\<close> of every operation that uses it: a
  function from a text to its vector, so the same text always has the same vector, and
  a batch is encoded text by text. Vectors are lists of reals and the inner product is
  exact, which idealises the floating-point numbers of the source; nothing is assumed of
  the length of the vectors, which in the source is 1 up to rounding.

  \<open>faiss.IndexFlatIP\<close> stores the vectors added to it; \<open>search(q, 1)\<close> returns the
  largest inner product with \<open>q\<close> and the position of a vector that attains it (here
  the first one). On an index with no vectors it reports the label \<open>-1\<close> and the lowest
  single-precision float.
\<close>

type_synonym vec = "real list"

definition dot :: "vec \<Rightarrow> vec \<Rightarrow> real" where
  "dot u v = sum_list (map2 (*) u v)"

fun best_ip :: "vec \<Rightarrow> real \<times> int \<Rightarrow> int \<Rightarrow> vec list \<Rightarrow> real \<times> int" where
  "best_ip q acc i [] = acc"
| "best_ip q acc i (v # vs) =
     best_ip q (if fst acc < dot v q then (dot v q, i) else acc) (i + 1) vs"

definition FLT_MAX :: real where
  "FLT_MAX = 340282346638528859811704183484516925440"

fun search1 :: "vec list \<Rightarrow> vec \<Rightarrow> real \<times> int" where
  "search1 [] q = (- FLT_MAX, - 1)"
| "search1 (v # vs) q = best_ip q (dot v q, 0) 1 vs"

text \<open>Python list indexing: a negative index counts from the end, out of range raises.\<close>

definition py_index :: "'a list \<Rightarrow> int \<Rightarrow> error + 'a" where
  "py_index xs i =
     (let n = int (length xs); j = (if i < 0 then n + i else i)
      in if 0 \<le> j \<and> j < n then Inr (xs ! nat j) else Inl IndexError)"

record team_entry =
  embeddings :: "vec list"
  prop_ids :: "string list"
  index :: "vec list"

type_synonym team_cache = "string \<rightharpoonup> team_entry"

text \<open>The module starts with \<open>_team_cache = {}\<close>.\<close>

definition team_cache_init :: team_cache where
  "team_cache_init = Map.empty"

text \<open>
  \<^verbatim>\<open>
  def _build_team_index(team_id, db):
      rows = db.execute(select(...).where(Property.team_id == team_id)).all()
      if not rows:
          raise ValueError(f"No properties found for team {team_id}")
      prop_ids, addrs = zip(*rows)
      embs = model.encode(list(addrs), normalize_embeddings=True)
      idx = faiss.IndexFlatIP(embs.shape[1])
      idx.add(embs)
      _team_cache[team_id] = {"embeddings": embs, "prop_ids": list(prop_ids), "index": idx}
  \<close>
  The global cache is passed in and returned; a raise returns the cache as it is at
  that point. The leading underscore of the source's name is dropped.
\<close>

definition build_team_index ::
    "(string \<Rightarrow> vec) \<Rightarrow> string \<Rightarrow> session \<Rightarrow> team_cache \<Rightarrow> (error + unit) \<times> team_cache" where
  "build_team_index encode team_id db cache =
     (let rows = team_rows db team_id
      in if rows = [] then (Inl (ValueError (''No properties found for team '' @ team_id)), cache)
         else
           let embs = map encode (map snd rows)
           in (Inr (),
               cache(team_id \<mapsto>
                 \<lparr>embeddings = embs, prop_ids = map fst rows, index = embs\<rparr>)))"

text \<open>
  \<^verbatim>\<open>
  def _team_resources(team_id, db):
      if team_id not in _team_cache:
          _build_team_index(team_id, db)
      return _team_cache[team_id]
  \<close>
\<close>

definition cache_get :: "team_cache \<Rightarrow> string \<Rightarrow> (error + team_entry) \<times> team_cache" where
  "cache_get cache team_id =
     (case cache team_id of None \<Rightarrow> (Inl (KeyError team_id), cache) | Some e \<Rightarrow> (Inr e, cache))"

definition team_resources ::
    "(string \<Rightarrow> vec) \<Rightarrow> string \<Rightarrow> session \<Rightarrow> team_cache \<Rightarrow> (error + team_entry) \<times> team_cache" where
  "team_resources encode team_id db cache =
     (if cache team_id = None
      then (case build_team_index encode team_id db cache of
              (Inl e, cache') \<Rightarrow> (Inl e, cache')
            | (Inr u, cache') \<Rightarrow> cache_get cache' team_id)
      else cache_get cache team_id)"


section \<open>The matching pipeline\<close>

text \<open>Confidences are reals, which idealises the floats of the source.\<close>

definition MIN_CONFIDENCE :: real where
  "MIN_CONFIDENCE = 0.80"

text \<open>\<open>conf = sim * 0.5 + 0.5\<close> and \<open>conf2 = (sim2 * 0.5 + 0.5) * 0.9\<close>.\<close>

definition fuzzy_conf :: "real \<Rightarrow> real" where
  "fuzzy_conf sim = sim * 0.5 + 0.5"

definition bldg_conf :: "real \<Rightarrow> real" where
  "bldg_conf sim2 = (sim2 * 0.5 + 0.5) * 0.9"

text \<open>\<open>base = norm_addr.split("-")[0].strip()\<close>\<close>

definition building_base :: "string \<Rightarrow> string" where
  "building_base norm_addr = strip (takeWhile (\<lambda>c. c \<noteq> CHR ''-'') norm_addr)"

text \<open>
  The return statement a decision comes from, named after the source's comments: the
  guard on a missing address, \<open>0. pre-match\<close>, \<open>1. exact\<close>, the handler of the failed
  index build, \<open>2. fuzzy\<close>, the two returns of \<open>3. building fallback\<close>, \<open>4. abstain\<close>.
\<close>

datatype stage =
    NoAddress
  | PreMatch
  | Exact
  | NoProperties
  | Fuzzy
  | BuildingExact
  | BuildingFuzzy
  | Abstain

type_synonym decision = "string option \<times> real"

text \<open>
  \<^verbatim>\<open>
  # 3. building fallback (strip after dash)
  base = norm_addr.split("-")[0].strip()
  bldg_exact = db.execute(... .limit(1)).scalar_one_or_none()
  if bldg_exact:
      return bldg_exact, 0.7
  emb2 = model.encode([base], normalize_embeddings=True)[0]
  sims2, idxs2 = res["index"].search(emb2.reshape(1, -1), 1)
  sim2 = float(sims2[0, 0])
  conf2 = (sim2 * 0.5 + 0.5) * 0.9
  if conf2 >= MIN_CONFIDENCE:
      return res["prop_ids"][int(idxs2[0, 0])], conf2
  # 4. abstain
  return None, 0.0
  \<close>
\<close>

definition building_fallback ::
    "(string \<Rightarrow> vec) \<Rightarrow> session \<Rightarrow> string \<Rightarrow> string \<Rightarrow> team_entry \<Rightarrow> error + stage \<times> decision" where
  "building_fallback encode db team_id norm_addr res =
     (let base = building_base norm_addr
      in case scalar_one_or_none (bldg_rows db team_id base) of
           Inl e \<Rightarrow> Inl e
         | Inr bldg_exact \<Rightarrow>
             if truthy bldg_exact then Inr (BuildingExact, bldg_exact, 0.7)
             else
               let emb2 = encode base;
                   (sim2, idx2) = search1 (index res) emb2;
                   conf2 = bldg_conf sim2
               in if conf2 \<ge> MIN_CONFIDENCE
                  then (case py_index (prop_ids res) idx2 of
                          Inl e \<Rightarrow> Inl e
                        | Inr pid \<Rightarrow> Inr (BuildingFuzzy, Some pid, conf2))
                  else Inr (Abstain, None, 0))"

text \<open>
  \<^verbatim>\<open>
  # 2. fuzzy / apartment level
  try:
      res = _team_resources(team_id, db)
  except ValueError:
      return None, 0.0
  emb = model.encode([norm_addr], normalize_embeddings=True)[0]
  sims, idxs = res["index"].search(emb.reshape(1, -1), 1)
  sim = float(sims[0, 0])
  conf = sim * 0.5 + 0.5
  if conf >= MIN_CONFIDENCE:
      return res["prop_ids"][int(idxs[0, 0])], conf
  \<close>
\<close>

definition fuzzy_stage ::
    "(string \<Rightarrow> vec) \<Rightarrow> session \<Rightarrow> team_cache \<Rightarrow> string \<Rightarrow> string \<Rightarrow>
       (error + stage \<times> decision) \<times> team_cache" where
  "fuzzy_stage encode db cache team_id norm_addr =
     (case team_resources encode team_id db cache of
        (Inl (ValueError m), cache') \<Rightarrow> (Inr (NoProperties, None, 0), cache')
      | (Inl MultipleResultsFound, cache') \<Rightarrow> (Inl MultipleResultsFound, cache')
      | (Inl (KeyError k), cache') \<Rightarrow> (Inl (KeyError k), cache')
      | (Inl IndexError, cache') \<Rightarrow> (Inl IndexError, cache')
      | (Inr res, cache') \<Rightarrow>
          let emb = encode norm_addr;
              (sim, idx) = search1 (index res) emb;
              conf = fuzzy_conf sim
          in if conf \<ge> MIN_CONFIDENCE
             then (case py_index (prop_ids res) idx of
                     Inl e \<Rightarrow> (Inl e, cache')
                   | Inr pid \<Rightarrow> (Inr (Fuzzy, Some pid, conf), cache'))
             else (building_fallback encode db team_id norm_addr res, cache'))"

text \<open>
  \<^verbatim>\<open>
  def match_listing(listing_id, team_id, listing_address, db):
      if not listing_address:
          return None, 0.0
      norm_addr = normalize_addr(listing_address)
      # 0. pre-match
      existing = db.execute(...).scalar_one_or_none()
      if existing:
          return existing, 1.0
      # 1. exact
      exact = db.execute(...).scalar_one_or_none()
      if exact:
          return exact, 1.0
      ...
  \<close>
  \<open>match_listing_staged\<close> is the function with every return labelled by its stage;
  \<open>match_listing\<close> forgets the label.

  The stage-0 query binds \<open>listing_id\<close>, the stage-1 query \<open>team_id\<close> and
  \<open>norm_addr\<close>. The queries that follow (the index build and stage 3) bind
  \<open>team_id\<close> and \<open>base\<close>, a part of \<open>norm_addr\<close>: strings that the stage-1
  query has bound before, so the driver's check is written at stages 0 and 1.
\<close>

definition match_listing_staged ::
    "(string \<Rightarrow> vec) \<Rightarrow> session \<Rightarrow> team_cache \<Rightarrow> string \<Rightarrow> string \<Rightarrow> string option \<Rightarrow>
       (error + stage \<times> decision) \<times> team_cache" where
  "match_listing_staged encode db cache listing_id team_id listing_address =
     (if \<not> truthy listing_address then (Inr (NoAddress, None, 0), cache)
      else
        let norm_addr = normalize_addr listing_address
        in case execute_scalar_one_or_none [listing_id] (prematch_rows db listing_id) of
             Inl e \<Rightarrow> (Inl e, cache)
           | Inr existing \<Rightarrow>
               if truthy existing then (Inr (PreMatch, existing, 1), cache)
               else
                 (case execute_scalar_one_or_none [team_id, norm_addr]
                         (exact_rows db team_id norm_addr) of
                    Inl e \<Rightarrow> (Inl e, cache)
                  | Inr exact \<Rightarrow>
                      if truthy exact then (Inr (Exact, exact, 1), cache)
                      else fuzzy_stage encode db cache team_id norm_addr))"

definition match_listing ::
    "(string \<Rightarrow> vec) \<Rightarrow> session \<Rightarrow> team_cache \<Rightarrow> string \<Rightarrow> string \<Rightarrow> string option \<Rightarrow>
       (error + decision) \<times> team_cache" where
  "match_listing encode db cache listing_id team_id listing_address =
     (case match_listing_staged encode db cache listing_id team_id listing_address of
        (Inl e, cache') \<Rightarrow> (Inl e, cache')
      | (Inr (st, d), cache') \<Rightarrow> (Inr d, cache'))"

section \<open>The service boundary\<close>

text \<open>
  \<open>round(conf, 4)\<close> on reals: to the nearest multiple of \<open>1/10000\<close>, a tie to the even
  one.
\<close>

definition round_half_even :: "real \<Rightarrow> int" where
  "round_half_even x =
     (let f = \<lfloor>x\<rfloor>; d = x - of_int f
      in if d < 1 / 2 then f else if 1 / 2 < d then f + 1 else if even f then f else f + 1)"

definition round4 :: "real \<Rightarrow> real" where
  "round4 x = of_int (round_half_even (x * 10000)) / 10000"

record match_request =
  req_listing_id :: string
  req_team_id :: string
  req_full_address :: string

text \<open>
  The endpoint answers with a \<open>MatchResponse\<close>, or with the 404 it raises for a
  \<open>ValueError\<close>; any other exception leaves the handler and is the framework's
  server error.
\<close>

datatype response =
    MatchResponse "string option" real
  | HTTPException nat string
  | ServerError error

text \<open>
  \<^verbatim>\<open>
  async def match(req: MatchRequest):
      with SessionLocal() as db:
          try:
              pid, conf = match_listing(req.listing_id, req.team_id, req.full_address, db)
          except ValueError as e:
              raise HTTPException(status_code=404, detail=str(e))
      return MatchResponse(property_id=pid, confidence=round(conf, 4))
  \<close>
\<close>

definition match ::
    "(string \<Rightarrow> vec) \<Rightarrow> session \<Rightarrow> team_cache \<Rightarrow> match_request \<Rightarrow> response \<times> team_cache" where
  "match encode db cache req =
     (case match_listing encode db cache
             (req_listing_id req) (req_team_id req) (Some (req_full_address req)) of
        (Inl (ValueError m), cache') \<Rightarrow> (HTTPException 404 m, cache')
      | (Inl MultipleResultsFound, cache') \<Rightarrow> (ServerError MultipleResultsFound, cache')
      | (Inl (KeyError k), cache') \<Rightarrow> (ServerError (KeyError k), cache')
      | (Inl IndexError, cache') \<Rightarrow> (ServerError IndexError, cache')
      | (Inr (pid, conf), cache') \<Rightarrow> (MatchResponse pid (round4 conf), cache'))"


section \<open>The states the cache can be in\<close>

text \<open>
  The cache is written by \<open>_build_team_index\<close> only, so the caches a process can hold
  over a data store \<open>db\<close> are the ones reached from the empty cache by calls of
  \<open>match_listing\<close>. Properties are read-only to the matcher: the data store is the
  same at every call.
\<close>

inductive reachable :: "(string \<Rightarrow> vec) \<Rightarrow> session \<Rightarrow> team_cache \<Rightarrow> bool"
  for encode :: "string \<Rightarrow> vec" and db :: session where
  init: "reachable encode db team_cache_init"
| step: "reachable encode db cache \<Longrightarrow>
         reachable encode db (snd (match_listing encode db cache listing_id team_id addr))"

text \<open>
  What holds of every entry of such a cache: the index is not empty, it has one vector
  for each identifier, the vectors are the embeddings of some texts, and the identifiers
  are those of the team's properties.
\<close>

definition entry_ok :: "(string \<Rightarrow> vec) \<Rightarrow> session \<Rightarrow> string \<Rightarrow> team_entry \<Rightarrow> bool" where
  "entry_ok encode db team_id e =
     (index e \<noteq> [] \<and> length (prop_ids e) = length (index e) \<and>
      set (index e) \<subseteq> range encode \<and>
      set (prop_ids e) \<subseteq> p_property_id ` {p \<in> set (properties db). p_team_id p = team_id})"

definition cache_ok :: "(string \<Rightarrow> vec) \<Rightarrow> session \<Rightarrow> team_cache \<Rightarrow> bool" where
  "cache_ok encode db cache = (\<forall>t e. cache t = Some e \<longrightarrow> entry_ok encode db t e)"

text \<open>
  The contract of the embedding provider (\<open>normalize_embeddings=True\<close>): every vector
  has unit length.
\<close>

definition norm_sq :: "vec \<Rightarrow> real" where
  "norm_sq v = sum_list (map (\<lambda>x. x * x) v)"

definition unit_provider :: "(string \<Rightarrow> vec) \<Rightarrow> bool" where
  "unit_provider encode = (\<forall>s. norm_sq (encode s) = 1)"

text \<open>A word as \<open>split\<close> yields it: not empty, and free of whitespace.\<close>

definition good_word :: "string \<Rightarrow> bool" where
  "good_word w = (w \<noteq> [] \<and> list_all (\<lambda>c. \<not> isspace c) w)"


section \<open>Sample data\<close>

text \<open>
  A small data store and a unit-length embedding on which the theorems below are
  instantiated: the team \<open>T1\<close> with the property \<open>P1\<close> at "123 main st", and variants
  of it.
\<close>

definition demo_encode :: "string \<Rightarrow> vec" where
  "demo_encode s =
     (if s = ''123 main st'' then [1, 0]
      else if s = ''123 main st - 4b'' then [4 / 5, 3 / 5]
      else [0, 1])"

definition demo_P1 :: property where
  "demo_P1 = \<lparr>p_property_id = ''P1'', p_team_id = ''T1'',
      p_street_part = ''123 main st'', p_full_address = ''123 main st''\<rparr>"

definition demo_P2 :: property where
  "demo_P2 = \<lparr>p_property_id = ''P2'', p_team_id = ''T1'',
      p_street_part = ''123 main st'', p_full_address = ''123 Main St''\<rparr>"

definition demo_PB :: property where
  "demo_PB = \<lparr>p_property_id = ''PB'', p_team_id = ''B'',
      p_street_part = ''9 elm rd'', p_full_address = ''9 elm rd''\<rparr>"

definition demo_db :: session where
  "demo_db = \<lparr>properties = [demo_P1], listings = []\<rparr>"

text \<open>
  The listing \<open>L0\<close> carries the pre-assigned property \<open>P1\<close>, and \<open>L1\<close> carries
  \<open>PB\<close>, which is of team \<open>B\<close>.
\<close>

definition demo_db_pre :: session where
  "demo_db_pre = \<lparr>properties = [demo_P1, demo_PB],
      listings = [\<lparr>l_listing_id = ''L0'', l_property_id = Some ''P1''\<rparr>,
                  \<lparr>l_listing_id = ''L1'', l_property_id = Some ''PB''\<rparr>]\<rparr>"

text \<open>Two properties of \<open>T1\<close> with the same address up to case.\<close>

definition demo_db_dup :: session where
  "demo_db_dup = \<lparr>properties = [demo_P1, demo_P2], listings = []\<rparr>"

text \<open>
  An embedding that depends on the words of a text only, as a tokenizer makes it, and
  whose vector for the address "123 main st" has length 1 in single precision but not
  exactly: its squared length is \<open>1 + 2 / 4096\<^sup>2\<close>. The property \<open>P7\<close> has that
  address with two spaces, so that the stage-1 pattern does not match it.
\<close>

definition demo_encode_f32 :: "string \<Rightarrow> vec" where
  "demo_encode_f32 s =
     (if split_ws (lower s) = [''123'', ''main'', ''st''] then [1, 1 / 4096, 1 / 4096]
      else [0, 1, 0])"

definition demo_P7 :: property where
  "demo_P7 = \<lparr>p_property_id = ''P7'', p_team_id = ''T1'',
      p_street_part = ''123  Main St'', p_full_address = ''123  Main St''\<rparr>"

definition demo_db_spaced :: session where
  "demo_db_spaced = \<lparr>properties = [demo_P7], listings = []\<rparr>"

text \<open>An embedding that puts the building "8 oak ave" near the property \<open>P1\<close>.\<close>

definition demo_encode_oak :: "string \<Rightarrow> vec" where
  "demo_encode_oak s = (if s = ''8 oak ave'' then [4 / 5, 3 / 5] else demo_encode s)"

section \<open>Splitting, joining and stripping\<close>

lemma split_ws_Nil [simp]: "split_ws [] = []"
  by (simp add: split_ws.simps)

lemma split_ws_space [simp]: "isspace c \<Longrightarrow> split_ws (c # s) = split_ws s"
  by (subst split_ws.simps, subst (2) split_ws.simps) simp

lemma split_ws_word:
  assumes "w \<noteq> []" "list_all (\<lambda>c. \<not> isspace c) w" "r = [] \<or> isspace (hd r)"
  shows "split_ws (w @ r) = w # split_ws r"
proof -
  from assms(1) obtain x xs where w: "w = x # xs" by (cases w) auto
  have nx: "\<not> isspace x" using assms(2) w by simp
  have d: "dropWhile isspace (w @ r) = w @ r" using w nx by simp
  have t: "takeWhile (\<lambda>c. \<not> isspace c) (w @ r) = w"
    using assms(2,3) by (cases r) (auto simp: takeWhile_append2 list_all_iff takeWhile_eq_all_conv)
  have dd: "dropWhile (\<lambda>c. \<not> isspace c) (w @ r) = r"
    using assms(2,3) by (cases r) (auto simp: dropWhile_append2 list_all_iff)
  show ?thesis
    using assms(1) by (subst split_ws.simps) (simp add: d t dd Let_def del: dropWhile_append3 takeWhile_append1)
qed

lemma split_ws_good: "list_all good_word (split_ws s)"
proof (induction s rule: split_ws.induct)
  case (1 s)
  show ?case
  proof (cases "dropWhile isspace s = []")
    case True
    then show ?thesis by (subst split_ws.simps) simp
  next
    case False
    then obtain x xs where rx: "dropWhile isspace s = x # xs" by (cases "dropWhile isspace s") auto
    then have nx: "\<not> isspace x" by (simp add: dropWhile_eq_Cons_conv)
    have g: "good_word (takeWhile (\<lambda>c. \<not> isspace c) (dropWhile isspace s))"
      using rx nx by (auto simp: good_word_def list_all_iff dest: set_takeWhileD)
    show ?thesis
      using 1 [OF refl False] g False by (subst split_ws.simps) (simp add: Let_def)
  qed
qed

lemma join_sp_Cons: "ws \<noteq> [] \<Longrightarrow> join_sp (w # ws) = w @ CHR '' '' # join_sp ws"
  by (cases ws) auto

lemma isspace_space [simp]: "isspace CHR '' ''"
  by (simp add: isspace_def)

lemma split_join: "list_all good_word ws \<Longrightarrow> split_ws (join_sp ws) = ws"
proof (induction ws rule: join_sp.induct)
  case 1
  then show ?case by simp
next
  case (2 w)
  then show ?case using split_ws_word [of w "[]"] by (simp add: good_word_def)
next
  case (3 w v ws)
  then show ?case
    using split_ws_word [of w "CHR '' '' # join_sp (v # ws)"] by (simp add: good_word_def)
qed


lemma of_char_lower_char:
  "(of_char (lower_char c) :: nat) =
     (let n = of_char c in if (65 \<le> n \<and> n \<le> 90) \<or> (192 \<le> n \<and> n \<le> 222 \<and> n \<noteq> 215) then n + 32 else n)"
  by (auto simp: lower_char_def Let_def)

lemma isspace_lower_char [simp]: "isspace (lower_char c) = isspace c"
  unfolding isspace_def of_char_lower_char by (auto simp: Let_def)

lemma lower_char_idem [simp]: "lower_char (lower_char c) = lower_char c"
proof -
  have "(of_char (lower_char (lower_char c)) :: nat) = of_char (lower_char c)"
    by (subst of_char_lower_char) (auto simp: of_char_lower_char Let_def)
  then show ?thesis by (metis char_of_comp_of_char comp_apply id_apply)
qed

lemma lower_idem [simp]: "lower (lower s) = lower s"
  by (simp add: lower_def)

lemma split_ws_lower: "split_ws (lower s) = map lower (split_ws s)"
proof (induction s rule: split_ws.induct)
  case (1 s)
  have d: "dropWhile isspace (lower s) = lower (dropWhile isspace s)"
    by (simp add: lower_def dropWhile_map comp_def)
  show ?case
  proof (cases "dropWhile isspace s = []")
    case True
    then show ?thesis
      by (subst split_ws.simps, subst (2) split_ws.simps) (simp add: d lower_def)
  next
    case False
    have t: "takeWhile (\<lambda>c. \<not> isspace c) (lower (dropWhile isspace s)) =
        lower (takeWhile (\<lambda>c. \<not> isspace c) (dropWhile isspace s))"
      by (simp add: lower_def takeWhile_map comp_def)
    have dd: "dropWhile (\<lambda>c. \<not> isspace c) (lower (dropWhile isspace s)) =
        lower (dropWhile (\<lambda>c. \<not> isspace c) (dropWhile isspace s))"
      by (simp add: lower_def dropWhile_map comp_def)
    have ne: "lower (dropWhile isspace s) \<noteq> []" using False by (simp add: lower_def)
    show ?thesis
      using 1 [OF refl False] False ne
      by (subst split_ws.simps, subst (2) split_ws.simps) (simp add: d t dd Let_def)
  qed
qed

lemma join_sp_lower: "join_sp (map lower ws) = lower (join_sp ws)"
  by (induction ws rule: join_sp.induct) (simp_all add: lower_def lower_char_def)

lemma normalize_addr_idem: "normalize_addr (Some (normalize_addr a)) = normalize_addr a"
proof (cases a)
  case None
  then show ?thesis by simp
next
  case (Some addr)
  let ?n = "join_sp (split_ws (lower addr))"
  have "lower ?n = ?n"
    by (simp add: join_sp_lower [symmetric] split_ws_lower [symmetric])
  moreover have "split_ws ?n = split_ws (lower addr)"
    by (rule split_join) (rule split_ws_good)
  ultimately show ?thesis using Some by simp
qed

lemma collapse_space: "isspace c \<Longrightarrow> collapse_ws (c # s) = CHR '' '' # collapse_ws (dropWhile isspace s)"
  by (induction s arbitrary: c) auto

lemma collapse_nonspace: "\<not> isspace c \<Longrightarrow> collapse_ws (c # s) = c # collapse_ws s"
  by (cases s) auto

lemma collapse_word: "list_all (\<lambda>c. \<not> isspace c) w \<Longrightarrow> collapse_ws (w @ r) = w @ collapse_ws r"
  by (induction w) (auto simp: collapse_nonspace)

lemma rstrip_append:
  "rstrip (a @ b) = (if \<forall>c\<in>set b. isspace c then rstrip a else a @ rstrip b)"
  by (simp add: rstrip_def dropWhile_append)

lemma rstrip_Cons:
  "\<not> (\<forall>c\<in>set b. isspace c) \<Longrightarrow> rstrip (c # b) = c # rstrip b"
  by (simp add: rstrip_def dropWhile_append)

lemma rstrip_Nil_iff: "rstrip b = [] \<longleftrightarrow> (\<forall>c\<in>set b. isspace c)"
  by (auto simp: rstrip_def dropWhile_eq_Nil_conv)

lemma rstrip_good: "good_word w \<Longrightarrow> rstrip w = w"
  by (cases w rule: rev_cases) (auto simp: rstrip_def good_word_def)

lemma strip_Nil_iff: "strip x = [] \<longleftrightarrow> (\<forall>c\<in>set x. isspace c)"
proof
  assume "strip x = []"
  then have a: "\<forall>c\<in>set (dropWhile isspace x). isspace c"
    by (simp add: strip_def lstrip_def rstrip_Nil_iff)
  show "\<forall>c\<in>set x. isspace c"
  proof (cases "dropWhile isspace x")
    case Nil
    then show ?thesis by (simp add: dropWhile_eq_Nil_conv)
  next
    case (Cons y ys)
    then have "\<not> isspace y" by (simp add: dropWhile_eq_Cons_conv)
    with a Cons show ?thesis by simp
  qed
next
  assume "\<forall>c\<in>set x. isspace c"
  then have d: "dropWhile isspace x = []" by (simp add: dropWhile_eq_Nil_conv)
  show "strip x = []" by (simp only: strip_def lstrip_def d) (simp add: rstrip_def)
qed

lemma strip_collapse_lead: "strip (collapse_ws s) = strip (collapse_ws (dropWhile isspace s))"
  by (induction s) (auto simp: collapse_space strip_def lstrip_def)

lemma join_sp_Nil_iff: "list_all good_word ws \<Longrightarrow> join_sp ws = [] \<longleftrightarrow> ws = []"
  by (induction ws rule: join_sp.induct) (auto simp: good_word_def)

lemma strip_collapse: "strip (collapse_ws s) = join_sp (split_ws s)"
proof (induction s rule: split_ws.induct)
  case (1 s)
  let ?r = "dropWhile isspace s"
  show ?case
  proof (cases "?r = []")
    case True
    have a: "strip (collapse_ws s) = []"
      by (subst strip_collapse_lead) (simp only: True, simp add: strip_def lstrip_def rstrip_def)
    have b: "split_ws s = []"
      by (subst split_ws.simps) (simp only: True Let_def, simp)
    show ?thesis by (simp add: a b)
  next
    case False
    let ?w = "takeWhile (\<lambda>c. \<not> isspace c) ?r"
    let ?t = "dropWhile (\<lambda>c. \<not> isspace c) ?r"
    from False obtain x xs where rx: "?r = x # xs" by (cases ?r) auto
    then have nx: "\<not> isspace x" by (simp add: dropWhile_eq_Cons_conv)
    have w: "?w \<noteq> []" "list_all (\<lambda>c. \<not> isspace c) ?w"
      using rx nx by (auto simp: list_all_iff dest: set_takeWhileD)
    then obtain y ys where wy: "?w = y # ys" "\<not> isspace y" by (cases ?w) auto
    have gw: "good_word ?w" using w by (simp add: good_word_def)
    have t: "?t = [] \<or> isspace (hd ?t)"
      using hd_dropWhile [of "\<lambda>c. \<not> isspace c" ?r] by auto
    have sp: "split_ws s = ?w # split_ws ?t"
      using False by (subst split_ws.simps) (simp add: Let_def)
    have IH: "strip (collapse_ws ?t) = join_sp (split_ws ?t)"
      using 1 [OF refl False] .
    have c: "collapse_ws ?r = ?w @ collapse_ws ?t"
      using collapse_word [OF w(2), of ?t] by simp
    have l: "lstrip (?w @ collapse_ws ?t) = ?w @ collapse_ws ?t"
      using wy by (simp add: lstrip_def)
    have s1: "strip (collapse_ws s) = rstrip (?w @ collapse_ws ?t)"
      by (subst strip_collapse_lead) (simp add: c strip_def l)
    show ?thesis
    proof (cases "split_ws ?t = []")
      case True
      then have "strip (collapse_ws ?t) = []" using IH by simp
      then have r0: "\<forall>c\<in>set (collapse_ws ?t). isspace c"
        by (simp only: strip_Nil_iff)
      have "rstrip (?w @ collapse_ws ?t) = rstrip ?w"
        by (simp only: rstrip_append if_P [OF r0])
      then have "strip (collapse_ws s) = ?w"
        using s1 rstrip_good [OF gw] by (simp only:)
      moreover have "join_sp (split_ws s) = ?w"
        by (simp only: sp True join_sp.simps)
      ultimately show ?thesis by (simp only:)
    next
      case F2: False
      have tne: "?t \<noteq> []"
      proof
        assume e: "?t = []"
        have "split_ws ?t = []" by (simp only: e split_ws_Nil)
        with F2 show False by (simp only:) simp
      qed
      then obtain z zs where tz: "?t = z # zs" by (cases ?t) auto
      then have zsp: "isspace z" using t by simp
      let ?y = "collapse_ws (dropWhile isspace zs)"
      have ct: "collapse_ws ?t = CHR '' '' # ?y"
        using collapse_space [OF zsp, of zs] tz by (simp only:)
      have jne: "join_sp (split_ws ?t) \<noteq> []"
        using join_sp_Nil_iff [OF split_ws_good, of ?t] F2 by (simp only:) simp
      have "strip (collapse_ws ?t) = strip ?y"
        by (simp only: ct) (simp add: strip_def lstrip_def)
      then have sy: "strip ?y = join_sp (split_ws ?t)" using IH by (simp only:)
      have ly: "lstrip ?y = ?y"
      proof (cases "dropWhile isspace zs")
        case Nil
        then show ?thesis by (simp only: Nil) (simp add: lstrip_def)
      next
        case (Cons u us)
        then have nu: "\<not> isspace u" by (simp add: dropWhile_eq_Cons_conv)
        show ?thesis by (simp only: Cons collapse_nonspace [OF nu]) (simp add: lstrip_def nu)
      qed
      have ry: "rstrip ?y = join_sp (split_ws ?t)"
        using sy ly by (simp only: strip_def)
      then have nall: "\<not> (\<forall>c\<in>set ?y. isspace c)"
        using jne rstrip_Nil_iff [of ?y] by (simp only:) simp
      have n2: "\<not> (\<forall>c\<in>set (CHR '' '' # ?y). isspace c)"
        using nall by simp
      have "strip (collapse_ws s) = rstrip (?w @ CHR '' '' # ?y)"
        by (simp only: s1 ct)
      also have "\<dots> = ?w @ rstrip (CHR '' '' # ?y)"
        by (simp only: rstrip_append if_not_P [OF n2])
      also have "\<dots> = ?w @ CHR '' '' # rstrip ?y"
        by (simp only: rstrip_Cons [OF nall])
      also have "\<dots> = ?w @ CHR '' '' # join_sp (split_ws ?t)"
        by (simp only: ry)
      finally have "strip (collapse_ws s) = ?w @ CHR '' '' # join_sp (split_ws ?t)" .
      moreover have "join_sp (split_ws s) = ?w @ CHR '' '' # join_sp (split_ws ?t)"
        by (simp only: sp join_sp_Cons [OF F2])
      ultimately show ?thesis by (simp only:)
    qed
  qed
qed

section \<open>The index search\<close>

lemma best_ip_idx:
  "0 \<le> snd acc \<Longrightarrow> snd acc < i \<Longrightarrow>
   0 \<le> snd (best_ip q acc i vs) \<and> snd (best_ip q acc i vs) < i + int (length vs)"
proof (induction vs arbitrary: acc i)
  case Nil
  then show ?case by simp
next
  case (Cons v vs)
  let ?acc = "if fst acc < dot v q then (dot v q, i) else acc"
  have "0 \<le> snd ?acc" "snd ?acc < i + 1" using Cons.prems by auto
  from Cons.IH [OF this] show ?case by simp
qed

lemma search1_idx:
  "ix \<noteq> [] \<Longrightarrow> 0 \<le> snd (search1 ix q) \<and> snd (search1 ix q) < int (length ix)"
  using best_ip_idx [of "(dot (hd ix) q, 0)" 1 q "tl ix"] by (cases ix) auto

lemma best_ip_le:
  "fst acc \<le> b \<Longrightarrow> \<forall>v\<in>set vs. dot v q \<le> b \<Longrightarrow> fst (best_ip q acc i vs) \<le> b"
  by (induction vs arbitrary: acc i) auto

lemma search1_le:
  "ix \<noteq> [] \<Longrightarrow> \<forall>v\<in>set ix. dot v q \<le> b \<Longrightarrow> fst (search1 ix q) \<le> b"
  using best_ip_le [of "(dot (hd ix) q, 0)" b "tl ix" q 1] by (cases ix) auto

lemma two_ab: "2 * (a * b) \<le> a * a + b * (b::real)"
  using sum_squares_bound [of a b] by (simp add: power2_eq_square)

lemma norm_sq_nonneg: "0 \<le> norm_sq v"
  by (induction v) (simp_all add: norm_sq_def)

lemma dot_le_half: "2 * dot u v \<le> norm_sq u + norm_sq v"
proof (induction u arbitrary: v)
  case Nil
  have "0 \<le> norm_sq v" by (rule norm_sq_nonneg)
  then show ?case by (simp add: dot_def norm_sq_def)
next
  case (Cons a u)
  show ?case
  proof (cases v)
    case Nil
    have "0 \<le> norm_sq (a # u)" by (rule norm_sq_nonneg)
    then show ?thesis using Nil by (simp add: dot_def norm_sq_def)
  next
    case (Cons b w)
    have "2 * dot u w \<le> norm_sq u + norm_sq w" by (rule Cons.IH)
    then show ?thesis using Cons two_ab [of a b]
      by (simp add: dot_def norm_sq_def algebra_simps)
  qed
qed

lemma dot_unit_le: "norm_sq u = 1 \<Longrightarrow> norm_sq v = 1 \<Longrightarrow> dot u v \<le> 1"
  using dot_le_half [of u v] by simp

lemma py_index_in: "0 \<le> i \<Longrightarrow> i < int (length xs) \<Longrightarrow> py_index xs i = Inr (xs ! nat i)"
  by (simp add: py_index_def Let_def)

lemma py_index_set: "py_index xs i = Inr x \<Longrightarrow> x \<in> set xs"
  by (auto simp: py_index_def Let_def split: if_splits)

section \<open>The cache and the stages\<close>

lemma team_rows_Nil_iff: "team_rows db t = [] \<longleftrightarrow> (\<forall>p\<in>set (properties db). p_team_id p \<noteq> t)"
  by (auto simp: team_rows_def filter_empty_conv)

lemma build_team_index_fail:
  "team_rows db t = [] \<Longrightarrow>
   build_team_index encode t db cache = (Inl (ValueError (''No properties found for team '' @ t)), cache)"
  by (simp add: build_team_index_def)

lemma build_team_index_ok:
  "team_rows db t \<noteq> [] \<Longrightarrow>
   build_team_index encode t db cache =
     (Inr (), cache(t \<mapsto> \<lparr>embeddings = map encode (map snd (team_rows db t)),
        prop_ids = map fst (team_rows db t), index = map encode (map snd (team_rows db t))\<rparr>))"
  by (simp add: build_team_index_def Let_def)

lemma entry_ok_built:
  "team_rows db t \<noteq> [] \<Longrightarrow>
   entry_ok encode db t \<lparr>embeddings = map encode (map snd (team_rows db t)),
        prop_ids = map fst (team_rows db t), index = map encode (map snd (team_rows db t))\<rparr>"
  by (auto simp: entry_ok_def team_rows_def)

lemma cache_ok_init: "cache_ok encode db team_cache_init"
  by (simp add: cache_ok_def team_cache_init_def)

lemma cache_ok_build:
  "cache_ok encode db cache \<Longrightarrow> cache_ok encode db (snd (build_team_index encode t db cache))"
proof (cases "team_rows db t = []")
  case True
  assume "cache_ok encode db cache"
  then show ?thesis using True by (simp add: build_team_index_fail)
next
  case False
  assume "cache_ok encode db cache"
  then show ?thesis using entry_ok_built [OF False, of encode]
    by (simp add: build_team_index_ok [OF False] cache_ok_def)
qed

text \<open>What \<open>_team_resources\<close> returns.\<close>

lemma team_resources_cases:
  "(cache t = None \<and> team_rows db t = [] \<and>
      team_resources encode t db cache =
        (Inl (ValueError (''No properties found for team '' @ t)), cache)) \<or>
   (\<exists>e. team_resources encode t db cache = (Inr e, (if cache t = None then cache(t \<mapsto> e) else cache)) \<and>
        (cache t = None \<longrightarrow> team_rows db t \<noteq> [] \<and>
           e = \<lparr>embeddings = map encode (map snd (team_rows db t)),
                prop_ids = map fst (team_rows db t), index = map encode (map snd (team_rows db t))\<rparr>) \<and>
        (cache t \<noteq> None \<longrightarrow> cache t = Some e))"
proof (cases "cache t")
  case None
  show ?thesis
  proof (cases "team_rows db t = []")
    case True
    then show ?thesis using None by (simp add: team_resources_def build_team_index_fail)
  next
    case False
    then show ?thesis using None
      by (simp add: team_resources_def build_team_index_ok cache_get_def)
  qed
next
  case (Some e)
  then show ?thesis by (simp add: team_resources_def cache_get_def)
qed

lemma team_resources_cached:
  "cache t = Some e \<Longrightarrow> team_resources encode t db cache = (Inr e, cache)"
  by (simp add: team_resources_def cache_get_def)

lemma team_resources_ok:
  assumes "cache_ok encode db cache" "team_resources encode t db cache = (r, cache')"
  shows "cache_ok encode db cache' \<and> (\<forall>e. r = Inr e \<longrightarrow> entry_ok encode db t e) \<and>
         (\<forall>x. r = Inl x \<longrightarrow> x = ValueError (''No properties found for team '' @ t) \<and> cache' = cache)"
  using team_resources_cases [of cache t db encode] assms entry_ok_built [of db t encode]
  by (auto simp: cache_ok_def split: if_splits)


lemma scalar_one_or_none_Inr:
  "scalar_one_or_none rows = Inr x \<Longrightarrow> (rows = [] \<and> x = None) \<or> rows = [x]"
  by (cases rows rule: scalar_one_or_none.cases) auto

lemma scalar_one_or_none_Inl:
  "scalar_one_or_none rows = Inl e \<Longrightarrow> e = MultipleResultsFound \<and> 2 \<le> length rows"
  by (cases rows rule: scalar_one_or_none.cases) auto

lemma scalar_one_or_none_take1:
  "scalar_one_or_none (take (Suc 0) rows) = Inr (case rows of [] \<Rightarrow> None | x # xs \<Rightarrow> x)"
  by (cases rows) auto

lemma execute_scalar_Inr:
  "execute_scalar_one_or_none ps rows = Inr x \<Longrightarrow>
   scalar_one_or_none rows = Inr x \<and> \<not> list_ex has_nul ps"
  by (auto simp: execute_scalar_one_or_none_def execute_def split: if_splits)

lemma execute_scalar_Inl:
  "execute_scalar_one_or_none ps rows = Inl e \<Longrightarrow>
   e = MultipleResultsFound \<or> (e = ValueError NUL_MESSAGE \<and> list_ex has_nul ps)"
  by (auto simp: execute_scalar_one_or_none_def execute_def split: if_splits
      dest: scalar_one_or_none_Inl)

lemma execute_scalar_ok:
  "\<not> list_ex has_nul ps \<Longrightarrow> execute_scalar_one_or_none ps rows = scalar_one_or_none rows"
  by (simp add: execute_scalar_one_or_none_def execute_def)

lemma bldg_rows_scalar:
  "scalar_one_or_none (bldg_rows db t b) = Inr x \<Longrightarrow> truthy x \<Longrightarrow>
   \<exists>p\<in>set (properties db). x = Some (p_property_id p) \<and> p_team_id p = t \<and> ilike (p_street_part p) b"
proof -
  assume a: "scalar_one_or_none (bldg_rows db t b) = Inr x" and t: "truthy x"
  from scalar_one_or_none_Inr [OF a] t have "x \<in> set (bldg_rows db t b)" by auto
  then have "x \<in> set (map (\<lambda>p. Some (p_property_id p))
       (filter (\<lambda>p. p_team_id p = t \<and> ilike (p_street_part p) b) (properties db)))"
    unfolding bldg_rows_def by (rule in_set_takeD)
  then show ?thesis by auto
qed

lemma exact_rows_scalar:
  "scalar_one_or_none (exact_rows db t n) = Inr x \<Longrightarrow> truthy x \<Longrightarrow>
   \<exists>p\<in>set (properties db). x = Some (p_property_id p) \<and> p_team_id p = t \<and> ilike (p_full_address p) n"
proof -
  assume a: "scalar_one_or_none (exact_rows db t n) = Inr x" and t: "truthy x"
  from scalar_one_or_none_Inr [OF a] t have "x \<in> set (exact_rows db t n)" by auto
  then show ?thesis by (auto simp: exact_rows_def)
qed

lemma building_fallback_Inr:
  assumes "building_fallback encode db t n res = Inr (st, pid, conf)"
  shows "(st = BuildingExact \<and> conf = 0.7 \<and> truthy pid \<and>
            scalar_one_or_none (bldg_rows db t (building_base n)) = Inr pid) \<or>
         (st = BuildingFuzzy \<and>
            conf = bldg_conf (fst (search1 (index res) (encode (building_base n)))) \<and>
            MIN_CONFIDENCE \<le> conf \<and>
            (\<exists>x. pid = Some x \<and>
               py_index (prop_ids res) (snd (search1 (index res) (encode (building_base n)))) = Inr x)) \<or>
         (st = Abstain \<and> pid = None \<and> conf = 0 \<and>
            bldg_conf (fst (search1 (index res) (encode (building_base n)))) < MIN_CONFIDENCE)"
  using assms
  by (auto simp: building_fallback_def Let_def case_prod_beta split: sum.splits if_splits)


lemma fuzzy_stage_Inr:
  assumes "fuzzy_stage encode db cache t n = (Inr (st, pid, conf), cache')"
  shows "(st = NoProperties \<and> pid = None \<and> conf = 0 \<and> cache' = cache \<and>
            fst (team_resources encode t db cache) = Inl (ValueError (''No properties found for team '' @ t))) \<or>
         (\<exists>res. team_resources encode t db cache = (Inr res, cache') \<and>
            ((st = Fuzzy \<and> conf = fuzzy_conf (fst (search1 (index res) (encode n))) \<and>
                MIN_CONFIDENCE \<le> conf \<and>
                (\<exists>x. pid = Some x \<and>
                   py_index (prop_ids res) (snd (search1 (index res) (encode n))) = Inr x)) \<or>
             (fuzzy_conf (fst (search1 (index res) (encode n))) < MIN_CONFIDENCE \<and>
                building_fallback encode db t n res = Inr (st, pid, conf))))"
proof -
  from team_resources_cases [of cache t db encode]
  show ?thesis
  proof
    assume "cache t = None \<and> team_rows db t = [] \<and>
      team_resources encode t db cache =
        (Inl (ValueError (''No properties found for team '' @ t)), cache)"
    then show ?thesis using assms by (auto simp: fuzzy_stage_def)
  next
    assume "\<exists>e. team_resources encode t db cache = (Inr e, (if cache t = None then cache(t \<mapsto> e) else cache)) \<and>
        (cache t = None \<longrightarrow> team_rows db t \<noteq> [] \<and>
           e = \<lparr>embeddings = map encode (map snd (team_rows db t)),
                prop_ids = map fst (team_rows db t), index = map encode (map snd (team_rows db t))\<rparr>) \<and>
        (cache t \<noteq> None \<longrightarrow> cache t = Some e)"
    then obtain e c2 where tr: "team_resources encode t db cache = (Inr e, c2)" by blast
    show ?thesis using assms
      by (auto simp: fuzzy_stage_def tr Let_def case_prod_beta split: sum.splits if_splits)
  qed
qed

lemma fuzzy_stage_cache:
  "cache_ok encode db cache \<Longrightarrow> cache_ok encode db (snd (fuzzy_stage encode db cache t n))"
proof -
  assume ok: "cache_ok encode db cache"
  obtain r c2 where tr: "team_resources encode t db cache = (r, c2)" by (cases "team_resources encode t db cache")
  from team_resources_ok [OF ok tr] have "cache_ok encode db c2" by simp
  then show ?thesis
    by (auto simp: fuzzy_stage_def tr Let_def case_prod_beta split: sum.splits error.splits)
qed

lemma match_listing_staged_cache:
  "cache_ok encode db cache \<Longrightarrow>
   cache_ok encode db (snd (match_listing_staged encode db cache lid t addr))"
  by (auto simp: match_listing_staged_def Let_def fuzzy_stage_cache split: sum.splits)

lemma match_listing_snd:
  "snd (match_listing encode db cache lid t addr) = snd (match_listing_staged encode db cache lid t addr)"
  by (auto simp: match_listing_def split: prod.splits sum.splits)

lemma match_listing_fst:
  "fst (match_listing encode db cache lid t addr) =
     (case fst (match_listing_staged encode db cache lid t addr) of
        Inl e \<Rightarrow> Inl e | Inr (st, d) \<Rightarrow> Inr d)"
  by (auto simp: match_listing_def split: prod.splits sum.splits)

lemma reachable_cache_ok: "reachable encode db cache \<Longrightarrow> cache_ok encode db cache"
  by (induction rule: reachable.induct)
    (simp_all add: cache_ok_init match_listing_snd match_listing_staged_cache)

lemma truthy_Some: "truthy x \<Longrightarrow> \<exists>y. x = Some y \<and> y \<noteq> []"
  by (cases x) auto

lemma building_fallback_decision:
  assumes "building_fallback encode db t n res = Inr (st, pid, conf)"
  shows "(st = BuildingExact \<or> st = BuildingFuzzy \<or> st = Abstain) \<and>
         (conf = 0 \<longleftrightarrow> pid = None) \<and> 0 \<le> conf"
  using building_fallback_Inr [OF assms] by (auto simp: MIN_CONFIDENCE_def)

lemma fuzzy_stage_decision:
  assumes "fst (fuzzy_stage encode db cache t n) = Inr (st, pid, conf)"
  shows "(st = NoProperties \<or> st = Fuzzy \<or> st = BuildingExact \<or> st = BuildingFuzzy \<or> st = Abstain) \<and>
         (conf = 0 \<longleftrightarrow> pid = None) \<and> 0 \<le> conf"
proof -
  obtain c where "fuzzy_stage encode db cache t n = (Inr (st, pid, conf), c)"
    using assms by (cases "fuzzy_stage encode db cache t n") auto
  from fuzzy_stage_Inr [OF this] show ?thesis
    by (auto simp: MIN_CONFIDENCE_def dest: building_fallback_decision)
qed

lemma match_listing_staged_Inr:
  assumes "fst (match_listing_staged encode db cache lid t addr) = Inr (st, pid, conf)"
  shows "(st = NoAddress \<and> \<not> truthy addr \<and> pid = None \<and> conf = 0) \<or>
         (st = PreMatch \<and> truthy addr \<and> truthy pid \<and> conf = 1 \<and>
            scalar_one_or_none (prematch_rows db lid) = Inr pid) \<or>
         (st = Exact \<and> truthy addr \<and> truthy pid \<and> conf = 1 \<and>
            scalar_one_or_none (exact_rows db t (normalize_addr addr)) = Inr pid) \<or>
         (truthy addr \<and> fst (fuzzy_stage encode db cache t (normalize_addr addr)) = Inr (st, pid, conf))"
  using assms
  by (auto simp: match_listing_staged_def Let_def split: if_splits sum.splits
      dest: execute_scalar_Inr)

text \<open>
  Over a cache that the process can hold, the searches find a neighbour and the index
  lookups are in range: \<open>IndexError\<close> and \<open>KeyError\<close> do not arise, and what
  leaves \<open>match_listing\<close> comes from the stage-0 and stage-1 queries, the
  \<open>MultipleResultsFound\<close> of their result or the \<open>ValueError\<close> of the driver.
  Failures of the data store itself are not modelled.
\<close>

lemma py_index_search1:
  assumes "entry_ok encode db t res"
  shows "\<exists>pid. py_index (prop_ids res) (snd (search1 (index res) q)) = Inr pid"
proof -
  have ne: "index res \<noteq> []" and len: "length (prop_ids res) = length (index res)"
    using assms by (simp_all add: entry_ok_def)
  from search1_idx [OF ne, of q]
  have "0 \<le> snd (search1 (index res) q)" "snd (search1 (index res) q) < int (length (prop_ids res))"
    using len by simp_all
  from py_index_in [OF this] show ?thesis by blast
qed

lemma building_fallback_returns:
  assumes "entry_ok encode db t res"
  shows "\<exists>d. building_fallback encode db t n res = Inr d"
proof -
  obtain x where s: "scalar_one_or_none (bldg_rows db t (building_base n)) = Inr x"
    by (simp add: bldg_rows_def scalar_one_or_none_take1)
  obtain pid where p: "py_index (prop_ids res)
      (snd (search1 (index res) (encode (building_base n)))) = Inr pid"
    using py_index_search1 [OF assms] by blast
  show ?thesis
    by (simp add: building_fallback_def Let_def case_prod_beta s p del: split_paired_Ex)
qed

lemma fuzzy_stage_returns:
  assumes "cache_ok encode db cache"
  shows "\<exists>d. fst (fuzzy_stage encode db cache t n) = Inr d"
proof -
  from team_resources_cases [of cache t db encode]
  show ?thesis
  proof
    assume "cache t = None \<and> team_rows db t = [] \<and>
      team_resources encode t db cache =
        (Inl (ValueError (''No properties found for team '' @ t)), cache)"
    then show ?thesis by (simp add: fuzzy_stage_def del: split_paired_Ex)
  next
    assume "\<exists>e. team_resources encode t db cache =
          (Inr e, (if cache t = None then cache(t \<mapsto> e) else cache)) \<and>
        (cache t = None \<longrightarrow> team_rows db t \<noteq> [] \<and>
           e = \<lparr>embeddings = map encode (map snd (team_rows db t)),
                prop_ids = map fst (team_rows db t), index = map encode (map snd (team_rows db t))\<rparr>) \<and>
        (cache t \<noteq> None \<longrightarrow> cache t = Some e)"
    then obtain res c where tr: "team_resources encode t db cache = (Inr res, c)" by blast
    have ok: "entry_ok encode db t res"
      using team_resources_ok [OF assms tr] by simp
    obtain pid where p: "py_index (prop_ids res) (snd (search1 (index res) (encode n))) = Inr pid"
      using py_index_search1 [OF ok] by blast
    obtain d where b: "building_fallback encode db t n res = Inr d"
      using building_fallback_returns [OF ok] by blast
    show ?thesis
      by (simp add: fuzzy_stage_def tr Let_def case_prod_beta p b del: split_paired_Ex)
  qed
qed

lemma match_listing_raises:
  assumes "reachable encode db cache"
    "fst (match_listing encode db cache lid t addr) = Inl e"
  shows "e = MultipleResultsFound \<or> e = ValueError NUL_MESSAGE"
proof -
  have ok: "cache_ok encode db cache" using assms(1) by (rule reachable_cache_ok)
  obtain d where f: "fst (fuzzy_stage encode db cache t (normalize_addr addr)) = Inr d"
    using fuzzy_stage_returns [OF ok] by blast
  have "fst (match_listing_staged encode db cache lid t addr) = Inl e"
    using assms(2) by (auto simp: match_listing_fst split: sum.splits)
  then show ?thesis
    using f
    by (auto simp: match_listing_staged_def Let_def split: if_splits sum.splits
        dest: execute_scalar_Inl)
qed

section \<open>The normalizer's contract\<close>

text \<open>
  Claim C6, as it is worded, at the address \<open>" A"\<close>: the lower-cased input with its
  leading run of whitespace collapsed to a single space is \<open>" a"\<close>, while the
  normalizer returns \<open>"a"\<close>. The normalizer removes leading and trailing whitespace
  instead of collapsing it to a space.
\<close>

theorem normalize_addr_collapse_counterexample:
  "normalize_addr (Some '' A'') = ''a'' \<and> collapse_ws (lower '' A'') = '' a'' \<and>
   normalize_addr (Some '' A'') \<noteq> collapse_ws (lower '' A'')"
  by code_simp

text \<open>
  Claim C6, amended: the normalizer is total and idempotent, a missing or empty address
  normalizes to the empty string, and the result is the lower-cased input with every run
  of whitespace collapsed to a single ASCII space and the whitespace at both ends removed.
\<close>

theorem normalize_addr_trim_collapse:
  "normalize_addr None = [] \<and> normalize_addr (Some []) = [] \<and>
   normalize_addr (Some (normalize_addr a)) = normalize_addr a \<and>
   normalize_addr (Some addr) = strip (collapse_ws (lower addr))"
proof -
  have c: "normalize_addr (Some addr) = strip (collapse_ws (lower addr))"
  proof (cases "addr = []")
    case True
    then show ?thesis by (simp add: strip_def lstrip_def rstrip_def lower_def)
  next
    case False
    then show ?thesis by (simp add: strip_collapse)
  qed
  show ?thesis
    by (intro conjI) (simp, simp, rule normalize_addr_idem, rule c)
qed

section \<open>The decisions of the pipeline\<close>

text \<open>
  Claim C1: for every result that \<open>match_listing\<close> returns, the confidence is \<open>0.0\<close>
  if and only if the property identifier is \<open>None\<close>; a non-null identifier carries a
  confidence of at least \<open>0.0\<close>; a decision taken at stage 0 (pre-match) or stage 1
  (exact) carries the confidence \<open>1.0\<close>. The guard on a missing address, which the
  source places before stage 0, returns no identifier.
\<close>

theorem match_listing_decision:
  assumes "fst (match_listing_staged encode db cache lid t addr) = Inr (st, pid, conf)"
  shows "fst (match_listing encode db cache lid t addr) = Inr (pid, conf) \<and>
         (conf = 0 \<longleftrightarrow> pid = None) \<and> (pid \<noteq> None \<longrightarrow> 0 \<le> conf) \<and>
         (st = PreMatch \<or> st = Exact \<longrightarrow> conf = 1)"
proof -
  have a: "fst (match_listing encode db cache lid t addr) = Inr (pid, conf)"
    using assms by (simp add: match_listing_fst)
  from match_listing_staged_Inr [OF assms]
  have b: "(conf = 0 \<longleftrightarrow> pid = None) \<and> 0 \<le> conf \<and> (st = PreMatch \<or> st = Exact \<longrightarrow> conf = 1)"
    by (elim disjE) (auto dest: fuzzy_stage_decision truthy_Some)
  show ?thesis using a b by simp
qed

theorem match_listing_decision_witness:
  "fst (match_listing_staged demo_encode demo_db team_cache_init ''L1'' ''T1''
          (Some ''123 Main St'')) = Inr (Exact, Some ''P1'', 1) \<and>
   fst (match_listing demo_encode demo_db team_cache_init ''L1'' ''T1''
          (Some ''123 Main St'')) = Inr (Some ''P1'', 1) \<and>
   (1 :: real) \<noteq> 0 \<and> Some ''P1'' \<noteq> (None :: string option)"
proof -
  have h: "fst (match_listing_staged demo_encode demo_db team_cache_init ''L1'' ''T1''
          (Some ''123 Main St'')) = Inr (Exact, Some ''P1'', 1)"
    by code_simp
  show ?thesis using h match_listing_decision [OF h] by simp
qed

section \<open>Stage 0: the pre-assigned property\<close>

lemma filter_distinct_key:
  "distinct (map f xs) \<Longrightarrow> l \<in> set xs \<Longrightarrow> P l \<Longrightarrow>
   filter (\<lambda>x. f x = f l \<and> P x) xs = [l]"
proof (induction xs)
  case Nil
  then show ?case by simp
next
  case (Cons x xs)
  show ?case
  proof (cases "x = l")
    case True
    have "f l \<notin> f ` set xs" using Cons.prems(1) True by simp
    then have "filter (\<lambda>x. f x = f l \<and> P x) xs = []"
      by (force simp: filter_empty_conv image_iff)
    then show ?thesis using True Cons.prems(3) by simp
  next
    case False
    then have "l \<in> set xs" using Cons.prems(2) by simp
    moreover have "f x \<noteq> f l" using Cons.prems(1) \<open>l \<in> set xs\<close> by auto
    ultimately show ?thesis using Cons by simp
  qed
qed

lemma prematch_rows_single:
  assumes "distinct (map l_listing_id (listings db))" "l \<in> set (listings db)"
    "l_listing_id l = lid" "l_property_id l = Some pid"
  shows "prematch_rows db lid = [Some pid]"
proof -
  have "filter (\<lambda>x. l_listing_id x = l_listing_id l \<and> l_property_id x \<noteq> None) (listings db) = [l]"
    using assms by (intro filter_distinct_key) auto
  then show ?thesis using assms by (simp add: prematch_rows_def)
qed

text \<open>
  Claim C2, as it is worded, at the listing \<open>L0\<close>, which carries the pre-assigned
  property \<open>P1\<close>: with an empty or a missing address the pipeline abstains, because the
  guard on the address comes before the pre-match query.
\<close>

theorem prematch_empty_address_counterexample:
  "prematch_rows demo_db_pre ''L0'' = [Some ''P1''] \<and>
   fst (match_listing demo_encode demo_db_pre team_cache_init ''L0'' ''T1'' (Some [])) = Inr (None, 0) \<and>
   fst (match_listing demo_encode demo_db_pre team_cache_init ''L0'' ''T1'' None) = Inr (None, 0)"
  by code_simp

text \<open>
  Claim C2, amended: for every listing that carries a pre-assigned, non-empty
  \<open>property_id\<close> (its identifier being one the data store accepts as a query parameter,
  free of NUL), the pipeline returns that identifier with confidence \<open>1.0\<close> when the
  address is not empty, whatever the team, the properties and the embeddings are; with
  a missing or an empty address it abstains with \<open>(None, 0.0)\<close>, whatever the listing
  carries. Both leave the cache as it is. The witness has a request whose address is the
  exact address of another property, and requests without an address for a second
  listing.
\<close>

theorem prematch_wins:
  assumes "distinct (map l_listing_id (listings db))" "l \<in> set (listings db)"
    "l_listing_id l = lid" "l_property_id l = Some pid" "pid \<noteq> []" "\<not> has_nul lid"
  shows "(truthy addr \<longrightarrow>
            match_listing encode db cache lid t addr = (Inr (Some pid, 1), cache)) \<and>
         (\<not> truthy addr \<longrightarrow>
            match_listing encode db cache lid t addr = (Inr (None, 0), cache))"
proof (intro conjI impI)
  assume a: "truthy addr"
  have q: "execute_scalar_one_or_none [lid] (prematch_rows db lid) = Inr (Some pid)"
    using assms(6) prematch_rows_single [OF assms(1-4)] by (simp add: execute_scalar_ok)
  show "match_listing encode db cache lid t addr = (Inr (Some pid, 1), cache)"
    using a assms(5) q by (simp add: match_listing_def match_listing_staged_def)
next
  assume "\<not> truthy addr"
  then show "match_listing encode db cache lid t addr = (Inr (None, 0), cache)"
    by (simp add: match_listing_def match_listing_staged_def)
qed

theorem prematch_wins_witness:
  "match_listing demo_encode demo_db_pre team_cache_init ''L0'' ''B'' (Some ''9 Elm Rd'') =
     (Inr (Some ''P1'', 1), team_cache_init) \<and>
   exact_rows demo_db_pre ''B'' (normalize_addr (Some ''9 Elm Rd'')) = [Some ''PB''] \<and>
   match_listing demo_encode demo_db_pre team_cache_init ''L1'' ''T1'' (Some []) =
     (Inr (None, 0), team_cache_init) \<and>
   match_listing demo_encode demo_db_pre team_cache_init ''L1'' ''T1'' None =
     (Inr (None, 0), team_cache_init)"
proof -
  have b: "distinct (map l_listing_id (listings demo_db_pre))" by (simp add: demo_db_pre_def)
  have c0: "\<lparr>l_listing_id = ''L0'', l_property_id = Some ''P1''\<rparr> \<in> set (listings demo_db_pre)"
    by (simp add: demo_db_pre_def)
  have c1: "\<lparr>l_listing_id = ''L1'', l_property_id = Some ''PB''\<rparr> \<in> set (listings demo_db_pre)"
    by (simp add: demo_db_pre_def)
  have n0: "\<not> has_nul ''L0''" by (simp add: has_nul_def)
  have n1: "\<not> has_nul ''L1''" by (simp add: has_nul_def)
  have d: "exact_rows demo_db_pre ''B'' (normalize_addr (Some ''9 Elm Rd'')) = [Some ''PB'']"
    by code_simp
  have w0: "match_listing demo_encode demo_db_pre team_cache_init ''L0'' ''B'' (Some ''9 Elm Rd'') =
     (Inr (Some ''P1'', 1), team_cache_init)"
    using prematch_wins [OF b c0 _ _ _ n0, of "''P1''" "Some ''9 Elm Rd''" demo_encode
        team_cache_init "''B''"]
    by simp
  have w1: "match_listing demo_encode demo_db_pre team_cache_init ''L1'' ''T1'' (Some []) =
     (Inr (None, 0), team_cache_init)"
    using prematch_wins [OF b c1 _ _ _ n1, of "''PB''" "Some []" demo_encode
        team_cache_init "''T1''"]
    by simp
  have w2: "match_listing demo_encode demo_db_pre team_cache_init ''L1'' ''T1'' None =
     (Inr (None, 0), team_cache_init)"
    using prematch_wins [OF b c1 _ _ _ n1, of "''PB''" None demo_encode
        team_cache_init "''T1''"]
    by simp
  show ?thesis by (intro conjI) (rule w0, rule d, rule w1, rule w2)
qed

section \<open>Stage 1: the exact match\<close>

text \<open>
  Claim C3 at a team with two properties whose full addresses equal the normalized input
  up to case: the stage-1 query returns both rows, \<open>scalar_one_or_none\<close> raises
  \<open>MultipleResultsFound\<close>, and the endpoint fails with a server error; the stage-3 query
  on the same rows, which has \<open>limit(1)\<close>, returns the first.
\<close>

theorem exact_duplicate_raises:
  "exact_rows demo_db_dup ''T1'' (normalize_addr (Some ''123 Main St'')) = [Some ''P1'', Some ''P2''] \<and>
   fst (match_listing demo_encode demo_db_dup team_cache_init ''L1'' ''T1'' (Some ''123 Main St''))
     = Inl MultipleResultsFound \<and>
   fst (match demo_encode demo_db_dup team_cache_init
         \<lparr>req_listing_id = ''L1'', req_team_id = ''T1'', req_full_address = ''123 Main St''\<rparr>)
     = ServerError MultipleResultsFound \<and>
   bldg_rows demo_db_dup ''T1'' ''123 main st'' = [Some ''P1'']"
  by code_simp

text \<open>With exactly one matching row, stage 1 decides.\<close>

lemma exact_single_match:
  assumes "truthy addr" "\<not> truthy x" "scalar_one_or_none (prematch_rows db lid) = Inr x"
    "exact_rows db t (normalize_addr addr) = [Some pid]" "pid \<noteq> []"
    "\<not> has_nul lid" "\<not> has_nul t" "\<not> has_nul (normalize_addr addr)"
  shows "match_listing_staged encode db cache lid t addr = (Inr (Exact, Some pid, 1), cache)"
  using assms by (simp add: match_listing_staged_def execute_scalar_ok)

section \<open>Team isolation\<close>

text \<open>
  Claim C4, as it is worded, at the listing \<open>L1\<close>, whose pre-assigned property \<open>PB\<close>
  is of team \<open>B\<close>: a request for team \<open>T1\<close> returns \<open>PB\<close>. The pre-match query
  selects by listing identifier only.
\<close>

theorem prematch_cross_team_counterexample:
  "demo_PB \<in> set (properties demo_db_pre) \<and> p_property_id demo_PB = ''PB'' \<and>
   p_team_id demo_PB = ''B'' \<and>
   fst (match_listing demo_encode demo_db_pre team_cache_init ''L1'' ''T1'' (Some ''123 main st''))
     = Inr (Some ''PB'', 1)"
  by code_simp

lemma entry_ok_member:
  "entry_ok encode db t e \<Longrightarrow> x \<in> set (prop_ids e) \<Longrightarrow>
   \<exists>p\<in>set (properties db). p_property_id p = x \<and> p_team_id p = t"
  by (auto simp: entry_ok_def)

lemma building_fallback_team:
  assumes "building_fallback encode db t n res = Inr (st, Some pid, conf)"
    "entry_ok encode db t res"
  shows "\<exists>p\<in>set (properties db). p_property_id p = pid \<and> p_team_id p = t"
proof -
  from building_fallback_Inr [OF assms(1)]
  consider (ex) "truthy (Some pid)" "scalar_one_or_none (bldg_rows db t (building_base n)) = Inr (Some pid)"
    | (fz) "py_index (prop_ids res) (snd (search1 (index res) (encode (building_base n)))) = Inr pid"
    by auto
  then show ?thesis
  proof cases
    case ex
    from bldg_rows_scalar [OF ex(2) ex(1)] show ?thesis by auto
  next
    case fz
    from py_index_set [OF fz] entry_ok_member [OF assms(2)] show ?thesis by blast
  qed
qed

lemma fuzzy_stage_team:
  assumes "cache_ok encode db cache"
    "fst (fuzzy_stage encode db cache t n) = Inr (st, Some pid, conf)"
  shows "\<exists>p\<in>set (properties db). p_property_id p = pid \<and> p_team_id p = t"
proof -
  obtain c where f: "fuzzy_stage encode db cache t n = (Inr (st, Some pid, conf), c)"
    using assms(2) by (cases "fuzzy_stage encode db cache t n") auto
  from fuzzy_stage_Inr [OF f]
  obtain res where tr: "team_resources encode t db cache = (Inr res, c)"
    and d: "py_index (prop_ids res) (snd (search1 (index res) (encode n))) = Inr pid \<or>
            building_fallback encode db t n res = Inr (st, Some pid, conf)"
    by auto
  have ok: "entry_ok encode db t res"
    using team_resources_ok [OF assms(1) tr] by simp
  from d show ?thesis
  proof
    assume "py_index (prop_ids res) (snd (search1 (index res) (encode n))) = Inr pid"
    from py_index_set [OF this] entry_ok_member [OF ok] show ?thesis by blast
  next
    assume "building_fallback encode db t n res = Inr (st, Some pid, conf)"
    from building_fallback_team [OF this ok] show ?thesis .
  qed
qed

text \<open>
  Claim C4, amended: for every input address, a match request for team \<open>A\<close> that is not
  decided at stage 0 (pre-match) returns only an identifier of a property of team \<open>A\<close>,
  and, identifiers being unique, never one of a property of another team \<open>B\<close>: stages 1
  to 3b confine their candidates to the requesting team. The cache is one that the
  process can hold over the same data store. Stage 0 returns the listing's pre-assigned
  identifier, whatever team that property is of.
\<close>

theorem team_isolation_after_prematch:
  assumes "reachable encode db cache" "distinct (map p_property_id (properties db))"
    "fst (match_listing_staged encode db cache lid A addr) = Inr (st, Some pid, conf)"
    "st \<noteq> PreMatch"
  shows "(\<exists>p\<in>set (properties db). p_property_id p = pid \<and> p_team_id p = A) \<and>
         (\<forall>B p. B \<noteq> A \<longrightarrow> p \<in> set (properties db) \<longrightarrow> p_team_id p = B \<longrightarrow> p_property_id p \<noteq> pid)"
proof -
  have ok: "cache_ok encode db cache" using assms(1) by (rule reachable_cache_ok)
  from match_listing_staged_Inr [OF assms(3)] assms(4)
  consider (ex) "truthy (Some pid)"
      "scalar_one_or_none (exact_rows db A (normalize_addr addr)) = Inr (Some pid)"
    | (fz) "fst (fuzzy_stage encode db cache A (normalize_addr addr)) = Inr (st, Some pid, conf)"
    by auto
  then have a: "\<exists>p\<in>set (properties db). p_property_id p = pid \<and> p_team_id p = A"
  proof cases
    case ex
    from exact_rows_scalar [OF ex(2) ex(1)] show ?thesis by auto
  next
    case fz
    from fuzzy_stage_team [OF ok fz] show ?thesis .
  qed
  then obtain p where p: "p \<in> set (properties db)" "p_property_id p = pid" "p_team_id p = A"
    by auto
  have inj: "inj_on p_property_id (set (properties db))"
    using assms(2) by (simp add: distinct_map)
  have b: "\<forall>B q. B \<noteq> A \<longrightarrow> q \<in> set (properties db) \<longrightarrow> p_team_id q = B \<longrightarrow>
      p_property_id q \<noteq> pid"
  proof (intro allI impI notI)
    fix B q
    assume ne: "B \<noteq> A" and q: "q \<in> set (properties db)" "p_team_id q = B"
      and e: "p_property_id q = pid"
    have "q = p" using inj q(1) p(1) e p(2) by (auto dest: inj_onD)
    then show False using ne q(2) p(3) by simp
  qed
  show ?thesis using a b by (rule conjI)
qed

theorem team_isolation_after_prematch_witness:
  "reachable demo_encode demo_db_pre team_cache_init \<and>
   distinct (map p_property_id (properties demo_db_pre)) \<and>
   fst (match_listing_staged demo_encode demo_db_pre team_cache_init ''L2'' ''T1''
          (Some ''123 Main St - 4B'')) = Inr (Fuzzy, Some ''P1'', 9 / 10) \<and>
   Fuzzy \<noteq> PreMatch \<and> demo_P1 \<in> set (properties demo_db_pre) \<and>
   p_property_id demo_P1 = ''P1'' \<and> p_team_id demo_P1 = ''T1'' \<and>
   p_property_id demo_PB \<noteq> ''P1''"
proof -
  have a: "reachable demo_encode demo_db_pre team_cache_init" by (rule reachable.init)
  have b: "distinct (map p_property_id (properties demo_db_pre))" by code_simp
  have c: "fst (match_listing_staged demo_encode demo_db_pre team_cache_init ''L2'' ''T1''
          (Some ''123 Main St - 4B'')) = Inr (Fuzzy, Some ''P1'', 9 / 10)" by code_simp
  have d: "Fuzzy \<noteq> PreMatch" by simp
  have e1: "demo_P1 \<in> set (properties demo_db_pre)" by code_simp
  have e2: "p_property_id demo_P1 = ''P1''" by code_simp
  have e3: "p_team_id demo_P1 = ''T1''" by code_simp
  have f1: "demo_PB \<in> set (properties demo_db_pre)" by code_simp
  have f2: "p_team_id demo_PB = ''B''" by code_simp
  have g: "''B'' \<noteq> ''T1''" by simp
  have h: "p_property_id demo_PB \<noteq> ''P1''"
    by (rule team_isolation_after_prematch [OF a b c d, THEN conjunct2, rule_format, OF g f1 f2])
  show ?thesis
    by (intro conjI) (rule a, rule b, rule c, rule d, rule e1, rule e2, rule e3, rule h)
qed

section \<open>Confidence bounds\<close>

lemma bldg_conf_fuzzy: "bldg_conf s = 0.9 * fuzzy_conf s"
  by (simp add: bldg_conf_def fuzzy_conf_def)

lemma unit_dot_le:
  "unit_provider encode \<Longrightarrow> v \<in> range encode \<Longrightarrow> dot v (encode q) \<le> 1"
  by (auto simp: unit_provider_def intro: dot_unit_le)

lemma search1_unit_le:
  assumes "unit_provider encode" "entry_ok encode db t e"
  shows "fst (search1 (index e) (encode q)) \<le> 1"
proof -
  have ne: "index e \<noteq> []" using assms(2) by (simp add: entry_ok_def)
  have "\<forall>v\<in>set (index e). dot v (encode q) \<le> 1"
    using assms unit_dot_le [OF assms(1)] by (auto simp: entry_ok_def)
  with ne show ?thesis by (rule search1_le)
qed

text \<open>The confidence of a decision of stage 2 and later, by the stage it comes from.\<close>

lemma fuzzy_stage_conf:
  assumes "fst (fuzzy_stage encode db cache t n) = Inr (st, pid, conf)"
  shows "(st = Fuzzy \<longrightarrow>
            (\<exists>res c. team_resources encode t db cache = (Inr res, c) \<and>
               conf = fuzzy_conf (fst (search1 (index res) (encode n))))) \<and>
         (st = BuildingFuzzy \<longrightarrow>
            (\<exists>res c. team_resources encode t db cache = (Inr res, c) \<and>
               conf = bldg_conf (fst (search1 (index res) (encode (building_base n)))))) \<and>
         (st \<noteq> Fuzzy \<and> st \<noteq> BuildingFuzzy \<longrightarrow> conf = 0 \<or> conf = 0.7)"
proof -
  obtain c where f: "fuzzy_stage encode db cache t n = (Inr (st, pid, conf), c)"
    using assms by (cases "fuzzy_stage encode db cache t n") auto
  from fuzzy_stage_Inr [OF f]
  consider (np) "st = NoProperties" "conf = 0"
    | (fz) res where "team_resources encode t db cache = (Inr res, c)" "st = Fuzzy"
        "conf = fuzzy_conf (fst (search1 (index res) (encode n)))"
    | (bf) res where "team_resources encode t db cache = (Inr res, c)"
        "building_fallback encode db t n res = Inr (st, pid, conf)"
    by blast
  then show ?thesis
  proof cases
    case np
    then show ?thesis by simp
  next
    case fz
    then show ?thesis by auto
  next
    case bf
    from building_fallback_Inr [OF bf(2)] bf(1) show ?thesis by auto
  qed
qed

text \<open>
  Claim C5, as it is worded, at an embedding whose vectors have length 1 up to rounding
  only: the property \<open>P7\<close> and the request have the same vector, of squared length
  \<open>1 + 2 / 4096\<^sup>2\<close>, the index reports that inner product as their similarity, and the
  pipeline returns the confidence \<open>16777217 / 16777216\<close>, above \<open>1.0\<close>. Nothing
  clamps it.
\<close>

theorem confidence_above_one_counterexample:
  "norm_sq (demo_encode_f32 ''123 main st'') = 8388609 / 8388608 \<and>
   exact_rows demo_db_spaced ''T1'' (normalize_addr (Some ''123 Main St'')) = [] \<and>
   fst (match_listing demo_encode_f32 demo_db_spaced team_cache_init ''L7'' ''T1''
          (Some ''123 Main St'')) = Inr (Some ''P7'', 16777217 / 16777216) \<and>
   (1 :: real) < 16777217 / 16777216"
  by code_simp

text \<open>
  Claim C5, amended: for every cosine similarity \<open>s\<close> in \<open>[-1, 1]\<close> the stage-2
  confidence \<open>s * 0.5 + 0.5\<close> lies in \<open>[0, 1]\<close>, and the stage-3b confidence for the
  same similarity is exactly \<open>0.9\<close> times the stage-2 value, hence at most \<open>0.9\<close>. A
  decision of stage 2 carries the stage-2 value of the similarity that the index reports
  for the normalized address, a decision of stage 3b carries \<open>0.9\<close> times the stage-2
  value of the similarity reported for the building address, and every other decision
  carries \<open>0.0\<close>, \<open>0.7\<close> or \<open>1.0\<close>. Every confidence that the pipeline returns is at
  least \<open>0.0\<close>; it is at most \<open>1.0\<close> when the similarities that the team's index
  reports are at most 1, which the code does not enforce.
\<close>

theorem confidence_bounds:
  assumes "fst (match_listing_staged encode db cache lid t addr) = Inr (st, pid, conf)"
  shows "(\<forall>s. - 1 \<le> s \<and> s \<le> 1 \<longrightarrow> 0 \<le> fuzzy_conf s \<and> fuzzy_conf s \<le> 1) \<and>
         (\<forall>s. bldg_conf s = 0.9 * fuzzy_conf s) \<and>
         (\<forall>s. - 1 \<le> s \<and> s \<le> 1 \<longrightarrow> bldg_conf s \<le> 0.9) \<and>
         fst (match_listing encode db cache lid t addr) = Inr (pid, conf) \<and>
         0 \<le> conf \<and>
         (st = Fuzzy \<longrightarrow>
            (\<exists>res c. team_resources encode t db cache = (Inr res, c) \<and>
               conf = fuzzy_conf (fst (search1 (index res) (encode (normalize_addr addr)))))) \<and>
         (st = BuildingFuzzy \<longrightarrow>
            (\<exists>res c. team_resources encode t db cache = (Inr res, c) \<and>
               conf = 0.9 * fuzzy_conf (fst (search1 (index res)
                        (encode (building_base (normalize_addr addr))))))) \<and>
         (st \<noteq> Fuzzy \<and> st \<noteq> BuildingFuzzy \<longrightarrow> conf = 0 \<or> conf = 0.7 \<or> conf = 1) \<and>
         ((\<forall>res c q. team_resources encode t db cache = (Inr res, c) \<longrightarrow>
              fst (search1 (index res) (encode q)) \<le> 1) \<longrightarrow> conf \<le> 1)"
proof -
  let ?n = "normalize_addr addr"
  have f1: "\<forall>s. - 1 \<le> s \<and> s \<le> 1 \<longrightarrow> 0 \<le> fuzzy_conf s \<and> fuzzy_conf s \<le> 1"
    by (simp add: fuzzy_conf_def)
  have f2: "\<forall>s. bldg_conf s = 0.9 * fuzzy_conf s"
    by (simp add: bldg_conf_fuzzy)
  have f3: "\<forall>s. - 1 \<le> s \<and> s \<le> 1 \<longrightarrow> bldg_conf s \<le> 0.9"
    by (simp add: bldg_conf_def)
  have ml: "fst (match_listing encode db cache lid t addr) = Inr (pid, conf)"
    using assms by (simp add: match_listing_fst)
  from match_listing_staged_Inr [OF assms]
  consider (early) "st = NoAddress \<or> st = PreMatch \<or> st = Exact" "conf = 0 \<or> conf = 1"
    | (late) "fst (fuzzy_stage encode db cache t ?n) = Inr (st, pid, conf)"
    by auto
  then have stages:
    "0 \<le> conf \<and>
     (st = Fuzzy \<longrightarrow>
        (\<exists>res c. team_resources encode t db cache = (Inr res, c) \<and>
           conf = fuzzy_conf (fst (search1 (index res) (encode ?n))))) \<and>
     (st = BuildingFuzzy \<longrightarrow>
        (\<exists>res c. team_resources encode t db cache = (Inr res, c) \<and>
           conf = 0.9 * fuzzy_conf (fst (search1 (index res) (encode (building_base ?n)))))) \<and>
     (st \<noteq> Fuzzy \<and> st \<noteq> BuildingFuzzy \<longrightarrow> conf = 0 \<or> conf = 0.7 \<or> conf = 1)"
  proof cases
    case early
    then show ?thesis by auto
  next
    case late
    note c = fuzzy_stage_conf [OF late, unfolded bldg_conf_fuzzy]
    show ?thesis using c fuzzy_stage_decision [OF late] by blast
  qed
  have bound: "conf \<le> 1"
    if h: "\<forall>res c q. team_resources encode t db cache = (Inr res, c) \<longrightarrow>
              fst (search1 (index res) (encode q)) \<le> 1"
  proof (cases "st = Fuzzy \<or> st = BuildingFuzzy")
    case False
    then show ?thesis using stages by auto
  next
    case True
    then show ?thesis
    proof
      assume "st = Fuzzy"
      then obtain res c where "team_resources encode t db cache = (Inr res, c)"
        "conf = fuzzy_conf (fst (search1 (index res) (encode ?n)))"
        using stages by blast
      then show ?thesis using h [rule_format, of res c ?n] by (simp add: fuzzy_conf_def)
    next
      assume "st = BuildingFuzzy"
      then obtain res c where "team_resources encode t db cache = (Inr res, c)"
        "conf = 0.9 * fuzzy_conf (fst (search1 (index res) (encode (building_base ?n))))"
        using stages by blast
      then show ?thesis using h [rule_format, of res c "building_base ?n"]
        by (simp add: fuzzy_conf_def)
    qed
  qed
  show ?thesis
    using f1 f2 f3 ml stages bound by blast
qed

theorem confidence_bounds_witness:
  "fst (match_listing_staged demo_encode demo_db team_cache_init ''L2'' ''T1''
          (Some ''123 Main St - 4B'')) = Inr (Fuzzy, Some ''P1'', 9 / 10) \<and>
   fst (match_listing_staged demo_encode_oak demo_db team_cache_init ''L8'' ''T1''
          (Some ''8 Oak Ave - 2'')) = Inr (BuildingFuzzy, Some ''P1'', 81 / 100) \<and>
   0 \<le> fuzzy_conf (4 / 5) \<and> fuzzy_conf (4 / 5) \<le> 1 \<and>
   bldg_conf (4 / 5) = 0.9 * fuzzy_conf (4 / 5) \<and> bldg_conf (4 / 5) \<le> 0.9 \<and>
   (\<exists>res c. team_resources demo_encode ''T1'' demo_db team_cache_init = (Inr res, c) \<and>
      (9 / 10 :: real) = fuzzy_conf (fst (search1 (index res)
         (demo_encode (normalize_addr (Some ''123 Main St - 4B'')))))) \<and>
   (\<exists>res c. team_resources demo_encode_oak ''T1'' demo_db team_cache_init = (Inr res, c) \<and>
      (81 / 100 :: real) = 0.9 * fuzzy_conf (fst (search1 (index res)
         (demo_encode_oak (building_base (normalize_addr (Some ''8 Oak Ave - 2''))))))) \<and>
   (9 / 10 :: real) \<le> 1"
proof -
  have h1: "fst (match_listing_staged demo_encode demo_db team_cache_init ''L2'' ''T1''
          (Some ''123 Main St - 4B'')) = Inr (Fuzzy, Some ''P1'', 9 / 10)" by code_simp
  have h2: "fst (match_listing_staged demo_encode_oak demo_db team_cache_init ''L8'' ''T1''
          (Some ''8 Oak Ave - 2'')) = Inr (BuildingFuzzy, Some ''P1'', 81 / 100)" by code_simp
  note t1 = confidence_bounds [OF h1]
  note t2 = confidence_bounds [OF h2]
  have r: "- 1 \<le> (4 / 5 :: real) \<and> (4 / 5 :: real) \<le> 1" by simp
  have a1: "0 \<le> fuzzy_conf (4 / 5) \<and> fuzzy_conf (4 / 5) \<le> 1"
    using t1 [THEN conjunct1, rule_format, OF r] .
  have a2: "bldg_conf (4 / 5) = 0.9 * fuzzy_conf (4 / 5)"
    using t1 [THEN conjunct2, THEN conjunct1, rule_format] .
  have a3: "bldg_conf (4 / 5) \<le> 0.9"
    using t1 [THEN conjunct2, THEN conjunct2, THEN conjunct1, rule_format, OF r] .
  note u1 = t1 [THEN conjunct2, THEN conjunct2, THEN conjunct2, THEN conjunct2, THEN conjunct2]
  note u2 = t2 [THEN conjunct2, THEN conjunct2, THEN conjunct2, THEN conjunct2, THEN conjunct2]
  have b1: "\<exists>res c. team_resources demo_encode ''T1'' demo_db team_cache_init = (Inr res, c) \<and>
      (9 / 10 :: real) = fuzzy_conf (fst (search1 (index res)
         (demo_encode (normalize_addr (Some ''123 Main St - 4B'')))))"
    using u1 [THEN conjunct1, rule_format, OF refl] .
  have b2: "\<exists>res c. team_resources demo_encode_oak ''T1'' demo_db team_cache_init = (Inr res, c) \<and>
      (81 / 100 :: real) = 0.9 * fuzzy_conf (fst (search1 (index res)
         (demo_encode_oak (building_base (normalize_addr (Some ''8 Oak Ave - 2''))))))"
    using u2 [THEN conjunct2, THEN conjunct1, rule_format, OF refl] .
  have up: "unit_provider demo_encode"
    by (simp add: unit_provider_def demo_encode_def norm_sq_def)
  have sims: "\<forall>res c q. team_resources demo_encode ''T1'' demo_db team_cache_init = (Inr res, c) \<longrightarrow>
      fst (search1 (index res) (demo_encode q)) \<le> 1"
  proof (intro allI impI)
    fix res c q
    assume tr: "team_resources demo_encode ''T1'' demo_db team_cache_init = (Inr res, c)"
    have "entry_ok demo_encode demo_db ''T1'' res"
      using team_resources_ok [OF cache_ok_init tr] by simp
    from search1_unit_le [OF up this] show "fst (search1 (index res) (demo_encode q)) \<le> 1" .
  qed
  have b3: "(9 / 10 :: real) \<le> 1"
    using u1 [THEN conjunct2, THEN conjunct2, THEN conjunct2, THEN mp, OF sims] .
  show ?thesis
    by (intro conjI) (rule h1, rule h2, rule a1 [THEN conjunct1], rule a1 [THEN conjunct2],
      rule a2, rule a3, rule b1, rule b2, rule b3)
qed

section \<open>A team without properties\<close>

text \<open>
  Claim C7: building the index of a team with no properties fails with the
  \<open>ValueError\<close> "No properties found for team ..." and leaves the cache as it was, so
  no entry is stored for the team; called through \<open>_team_resources\<close> for a team that
  has no entry, the failure leaves the team without an entry, and a later call for the
  same team runs the build again, which stores an entry once the team has properties.
\<close>

theorem build_failure_not_cached:
  assumes "\<forall>p\<in>set (properties db). p_team_id p \<noteq> t"
  shows "build_team_index encode t db cache =
           (Inl (ValueError (''No properties found for team '' @ t)), cache) \<and>
         (cache t = None \<longrightarrow>
            team_resources encode t db cache =
              (Inl (ValueError (''No properties found for team '' @ t)), cache) \<and>
            snd (team_resources encode t db cache) t = None \<and>
            (\<forall>db'. team_resources encode t db' (snd (team_resources encode t db cache)) =
               (case build_team_index encode t db' cache of
                  (Inl e, cache') \<Rightarrow> (Inl e, cache')
                | (Inr u, cache') \<Rightarrow> cache_get cache' t)) \<and>
            (\<forall>db'. team_rows db' t \<noteq> [] \<longrightarrow>
               (\<exists>e. team_resources encode t db' (snd (team_resources encode t db cache)) =
                      (Inr e, cache(t \<mapsto> e)) \<and>
                    prop_ids e = map fst (team_rows db' t))))"
proof -
  have r: "team_rows db t = []" using assms by (simp add: team_rows_Nil_iff)
  have b: "build_team_index encode t db cache =
           (Inl (ValueError (''No properties found for team '' @ t)), cache)"
    using r by (rule build_team_index_fail)
  have c: "cache t = None \<Longrightarrow> team_resources encode t db cache =
              (Inl (ValueError (''No properties found for team '' @ t)), cache)"
    by (simp add: team_resources_def b)
  have d: "cache t = None \<Longrightarrow> team_resources encode t db' cache =
               (case build_team_index encode t db' cache of
                  (Inl e, cache') \<Rightarrow> (Inl e, cache')
                | (Inr u, cache') \<Rightarrow> cache_get cache' t)" for db'
    by (simp add: team_resources_def)
  have e: "cache t = None \<Longrightarrow> team_rows db' t \<noteq> [] \<Longrightarrow>
      (\<exists>e. team_resources encode t db' cache = (Inr e, cache(t \<mapsto> e)) \<and>
                    prop_ids e = map fst (team_rows db' t))" for db'
    by (simp add: team_resources_def build_team_index_ok cache_get_def)
  show ?thesis using b c d e by simp
qed

theorem build_failure_not_cached_witness:
  "build_team_index demo_encode ''B'' demo_db team_cache_init =
     (Inl (ValueError ''No properties found for team B''), team_cache_init) \<and>
   team_cache_init ''B'' = None \<and>
   team_resources demo_encode ''B'' demo_db team_cache_init =
     (Inl (ValueError ''No properties found for team B''), team_cache_init) \<and>
   snd (team_resources demo_encode ''B'' demo_db team_cache_init) ''B'' = None \<and>
   team_rows demo_db_pre ''B'' = [(''PB'', ''9 elm rd'')] \<and>
   (\<exists>e. team_resources demo_encode ''B'' demo_db_pre
           (snd (team_resources demo_encode ''B'' demo_db team_cache_init)) =
         (Inr e, team_cache_init(''B'' \<mapsto> e)) \<and>
        prop_ids e = [''PB''])"
proof -
  have a: "\<forall>p\<in>set (properties demo_db). p_team_id p \<noteq> ''B''"
    by (simp add: demo_db_def demo_P1_def)
  have n: "team_cache_init ''B'' = None" by (simp add: team_cache_init_def)
  have r: "team_rows demo_db_pre ''B'' = [(''PB'', ''9 elm rd'')]" by code_simp
  then have r': "team_rows demo_db_pre ''B'' \<noteq> []" by simp
  note t = build_failure_not_cached [OF a, of demo_encode team_cache_init]
  have t1: "build_team_index demo_encode ''B'' demo_db team_cache_init =
     (Inl (ValueError ''No properties found for team B''), team_cache_init)"
    using t [THEN conjunct1] by simp
  note u = t [THEN conjunct2, rule_format, OF n]
  have t2: "team_resources demo_encode ''B'' demo_db team_cache_init =
     (Inl (ValueError ''No properties found for team B''), team_cache_init)"
    using u [THEN conjunct1] by simp
  have t3: "snd (team_resources demo_encode ''B'' demo_db team_cache_init) ''B'' = None"
    using u [THEN conjunct2, THEN conjunct1] .
  have t4: "\<exists>e. team_resources demo_encode ''B'' demo_db_pre
           (snd (team_resources demo_encode ''B'' demo_db team_cache_init)) =
         (Inr e, team_cache_init(''B'' \<mapsto> e)) \<and>
        prop_ids e = [''PB'']"
    using u [THEN conjunct2, THEN conjunct2, THEN conjunct2, rule_format, OF r'] r
    by simp
  show ?thesis by (intro conjI) (rule t1, rule n, rule t2, rule t3, rule r, rule t4)
qed












lemma match_nul_404:
  "fst (match demo_encode demo_db team_cache_init
      \<lparr>req_listing_id = ''L3'', req_team_id = ''T2'',
       req_full_address = [CHR ''x'', CHR 0x00]\<rparr>) = HTTPException 404 NUL_MESSAGE"
  by code_simp




section \<open>Addresses without a hyphen\<close>

lemma lstrip_join: "list_all good_word ws \<Longrightarrow> lstrip (join_sp ws) = join_sp ws"
proof (cases ws)
  case Nil
  then show ?thesis by (simp add: lstrip_def)
next
  case (Cons w vs)
  assume "list_all good_word ws"
  then have "good_word w" using Cons by simp
  then obtain x xs where w: "w = x # xs" "\<not> isspace x"
    by (cases w) (auto simp: good_word_def)
  have "\<exists>r. join_sp (w # vs) = x # r"
    using w by (cases vs) auto
  then show ?thesis using Cons w(2) by (auto simp: lstrip_def)
qed

lemma rstrip_join: "list_all good_word ws \<Longrightarrow> rstrip (join_sp ws) = join_sp ws"
proof (induction ws rule: join_sp.induct)
  case 1
  then show ?case by (simp add: rstrip_def)
next
  case (2 w)
  then show ?case by (simp add: rstrip_good)
next
  case (3 w v ws)
  let ?J = "join_sp (v # ws)"
  have g: "list_all good_word (v # ws)" using 3 by simp
  have IH: "rstrip ?J = ?J" using 3 by simp
  have "?J \<noteq> []" using join_sp_Nil_iff [OF g] by simp
  then have nall: "\<not> (\<forall>c\<in>set ?J. isspace c)"
    using IH rstrip_Nil_iff [of ?J] by simp
  have n2: "\<not> (\<forall>c\<in>set (CHR '' '' # ?J). isspace c)"
    using nall by simp
  have "rstrip (w @ CHR '' '' # ?J) = w @ rstrip (CHR '' '' # ?J)"
    by (simp only: rstrip_append if_not_P [OF n2])
  also have "\<dots> = w @ CHR '' '' # rstrip ?J"
    by (simp only: rstrip_Cons [OF nall])
  finally show ?case by (simp only: IH join_sp.simps)
qed

lemma strip_normalize_addr: "strip (normalize_addr addr) = normalize_addr addr"
proof (cases addr)
  case None
  then show ?thesis by (simp add: strip_def lstrip_def rstrip_def)
next
  case (Some a)
  show ?thesis
  proof (cases "a = []")
    case True
    then show ?thesis using Some by (simp add: strip_def lstrip_def rstrip_def)
  next
    case False
    have g: "list_all good_word (split_ws (lower a))" by (rule split_ws_good)
    show ?thesis using Some False
      by (simp add: strip_def lstrip_join [OF g] rstrip_join [OF g])
  qed
qed

lemma building_base_no_hyphen:
  "CHR ''-'' \<notin> set (normalize_addr addr) \<Longrightarrow>
   building_base (normalize_addr addr) = normalize_addr addr"
proof -
  assume "CHR ''-'' \<notin> set (normalize_addr addr)"
  then have "takeWhile (\<lambda>c. c \<noteq> CHR ''-'') (normalize_addr addr) = normalize_addr addr"
    by (auto simp: takeWhile_eq_all_conv)
  then show ?thesis
    unfolding building_base_def by (simp only: strip_normalize_addr)
qed

lemma bldg_conf_below: "fuzzy_conf s < MIN_CONFIDENCE \<Longrightarrow> bldg_conf s < MIN_CONFIDENCE"
  by (simp add: fuzzy_conf_def bldg_conf_def MIN_CONFIDENCE_def)

text \<open>
  Claim C10: for every listing whose normalized address contains no hyphen, and every
  embedding function, the coarser building address equals the normalized address, so the
  stage-3b search returns the stage-2 similarity, whose stage-3b confidence is \<open>0.9\<close>
  times the stage-2 confidence and below \<open>MIN_CONFIDENCE\<close> whenever the stage-2
  confidence is; the pipeline never returns from stage 3b (building-fallback fuzzy).
\<close>

theorem no_hyphen_never_building_fuzzy:
  assumes "CHR ''-'' \<notin> set (normalize_addr addr)"
  shows "building_base (normalize_addr addr) = normalize_addr addr \<and>
         (\<forall>s. fuzzy_conf s < MIN_CONFIDENCE \<longrightarrow>
            bldg_conf s = 0.9 * fuzzy_conf s \<and> bldg_conf s < MIN_CONFIDENCE) \<and>
         (\<forall>pid conf. fst (match_listing_staged encode db cache lid t addr)
            \<noteq> Inr (BuildingFuzzy, pid, conf))"
proof -
  let ?n = "normalize_addr addr"
  have base: "building_base ?n = ?n" using assms by (rule building_base_no_hyphen)
  have never: "fst (match_listing_staged encode db cache lid t addr) \<noteq> Inr (BuildingFuzzy, pid, conf)"
    for pid conf
  proof
    assume a: "fst (match_listing_staged encode db cache lid t addr) = Inr (BuildingFuzzy, pid, conf)"
    from match_listing_staged_Inr [OF a]
    have f: "fst (fuzzy_stage encode db cache t ?n) = Inr (BuildingFuzzy, pid, conf)"
      by auto
    then obtain c where "fuzzy_stage encode db cache t ?n = (Inr (BuildingFuzzy, pid, conf), c)"
      by (cases "fuzzy_stage encode db cache t ?n") auto
    from fuzzy_stage_Inr [OF this]
    obtain res where lo: "fuzzy_conf (fst (search1 (index res) (encode ?n))) < MIN_CONFIDENCE"
      and bf: "building_fallback encode db t ?n res = Inr (BuildingFuzzy, pid, conf)"
      by auto
    from building_fallback_Inr [OF bf]
    have "MIN_CONFIDENCE \<le> bldg_conf (fst (search1 (index res) (encode (building_base ?n))))"
      by auto
    then have "MIN_CONFIDENCE \<le> bldg_conf (fst (search1 (index res) (encode ?n)))"
      by (simp only: base)
    with bldg_conf_below [OF lo] show False by simp
  qed
  have conf: "\<forall>s. fuzzy_conf s < MIN_CONFIDENCE \<longrightarrow>
            bldg_conf s = 0.9 * fuzzy_conf s \<and> bldg_conf s < MIN_CONFIDENCE"
    using bldg_conf_fuzzy bldg_conf_below by blast
  show ?thesis using base conf never by blast
qed

theorem no_hyphen_never_building_fuzzy_witness:
  "CHR ''-'' \<notin> set (normalize_addr (Some ''9 Elm  Rd'')) \<and>
   building_base (normalize_addr (Some ''9 Elm  Rd'')) = normalize_addr (Some ''9 Elm  Rd'') \<and>
   fuzzy_conf 0 < MIN_CONFIDENCE \<and> bldg_conf 0 = 0.9 * fuzzy_conf 0 \<and>
   bldg_conf 0 < MIN_CONFIDENCE \<and>
   fst (match_listing_staged demo_encode demo_db team_cache_init ''L5'' ''T1'' (Some ''9 Elm  Rd''))
     = Inr (Abstain, None, 0) \<and>
   fst (match_listing_staged demo_encode demo_db team_cache_init ''L5'' ''T1'' (Some ''9 Elm  Rd''))
     \<noteq> Inr (BuildingFuzzy, None, 0)"
proof -
  have a: "CHR ''-'' \<notin> set (normalize_addr (Some ''9 Elm  Rd''))" by code_simp
  note t = no_hyphen_never_building_fuzzy [OF a]
  have l: "fuzzy_conf 0 < MIN_CONFIDENCE" by (simp add: fuzzy_conf_def MIN_CONFIDENCE_def)
  have t2: "bldg_conf 0 = 0.9 * fuzzy_conf 0 \<and> bldg_conf 0 < MIN_CONFIDENCE"
    using t [THEN conjunct2, THEN conjunct1, rule_format, OF l] .
  have r: "fst (match_listing_staged demo_encode demo_db team_cache_init ''L5'' ''T1''
      (Some ''9 Elm  Rd'')) = Inr (Abstain, None, 0)" by code_simp
  have t3: "fst (match_listing_staged demo_encode demo_db team_cache_init ''L5'' ''T1''
      (Some ''9 Elm  Rd'')) \<noteq> Inr (BuildingFuzzy, None, 0)"
    using t [THEN conjunct2, THEN conjunct2, rule_format] .
  show ?thesis
    by (intro conjI) (rule a, rule t [THEN conjunct1], rule l, rule t2 [THEN conjunct1],
      rule t2 [THEN conjunct2], rule r, rule t3)
qed

end
